theory Spec2Isabelle
  imports Complex_Main
begin

section \<open>The agent simulation engine of swarm\_sim.py\<close>

text \<open>
  The embedding follows \<^verbatim>\<open>src/swarm_sim.py\<close>. Boid and Projectile objects live in a
  store that maps a reference to the object's record; the roster \<^verbatim>\<open>all_boids\<close> is a
  list of references, so that \<^verbatim>\<open>b != self\<close> is inequality of references and a
  mutation through one reference is seen through every other. Python integers are
  \<open>int\<close>. Python floats are read as real numbers: arithmetic is exact, and
  \<^verbatim>\<open>math.hypot\<close> is the Euclidean norm. The exceptions are the speed cap, the move
  and the float remainder of the wrap: there the rounding of every float operation
  is written out (see \<open>binary64\<close>). The two calls of
  \<^verbatim>\<open>random.uniform(-1, 1)\<close> in \<^verbatim>\<open>handle_evade\<close> are arguments of the model.
  Drawing, fonts and the event loop are not modelled.
\<close>

subsection \<open>Constants\<close>

definition WIDTH :: real where "WIDTH = 1000"
definition HEIGHT :: real where "HEIGHT = 700"
definition BOID_RADIUS :: real where "BOID_RADIUS = 6"
definition MAX_SPEED :: real where "MAX_SPEED = 2"
definition NEIGHBOR_RADIUS :: real where "NEIGHBOR_RADIUS = 50"
definition AVOID_RADIUS :: real where "AVOID_RADIUS = 20"
definition FORMATION_MODE :: string where "FORMATION_MODE = ''V''"

subsection \<open>Utility functions\<close>

datatype error = IndexError | ZeroDivisionError

type_synonym point = "real \<times> real"

definition hypot :: "real \<Rightarrow> real \<Rightarrow> real" where
  "hypot x y = sqrt (x * x + y * y)"

definition distance :: "point \<Rightarrow> point \<Rightarrow> real" where
  "distance a b = hypot (fst a - fst b) (snd a - snd b)"

text \<open>
  \<^verbatim>\<open>get_formation_offset\<close>: \<^verbatim>\<open>//\<close> is floor division and \<^verbatim>\<open>%\<close> the floor
  remainder, as \<open>div\<close> and \<open>mod\<close> on \<open>int\<close>. In mode CIRCLE the division by
  \<^verbatim>\<open>total\<close> (here \<open>total'\<close>) raises when it is zero.
\<close>

definition get_formation_offset :: "int \<Rightarrow> string \<Rightarrow> int \<Rightarrow> error + point" where
  "get_formation_offset index mode total' =
     (let spacing = (30 :: int) in
      if mode = ''V'' then
        (let layer = (index + 1) div 2;
             side = (if index mod 2 = 0 then - 1 else 1)
         in Inr (real_of_int (side * spacing * layer), real_of_int (spacing * layer)))
      else if mode = ''CIRCLE'' then
        (if total' = 0 then Inl ZeroDivisionError
         else
           (let angle = (2 * pi / real_of_int total') * real_of_int index;
                radius = 60
            in Inr (cos angle * radius, sin angle * radius)))
      else Inr (0, 0))"

subsection \<open>Objects and the store\<close>

type_synonym ref = nat

text \<open>The fields of a Projectile; \<^verbatim>\<open>target_boid\<close> is a reference to a Boid.\<close>

record projectile =
  pos :: point
  target_boid :: ref
  velocity :: point
  speed :: real
  active :: bool

text \<open>
  The fields of a Boid, in the order of \<^verbatim>\<open>__init__\<close>. \<^verbatim>\<open>leader_ref\<close> and
  \<^verbatim>\<open>target_enemy\<close> are \<^verbatim>\<open>None\<close> or a reference. The field \<^verbatim>\<open>label\<close>, which only
  \<^verbatim>\<open>draw\<close> reads, is left out.
\<close>

record boid =
  position :: point
  velocity :: point
  squad_id :: int
  is_leader :: bool
  index_in_squad :: int
  leader_ref :: "ref option"
  formation_offset :: point
  waypoints :: "point list"
  current_wp :: int
  health :: real
  attacking :: bool
  target_enemy :: "ref option"
  is_medic :: bool
  shielded :: bool
  shield_timer :: int
  projectile_cooldown :: int
  is_enemy :: bool
  firing_range :: real
  detection_range :: real
  state :: string

type_synonym heap = "ref \<Rightarrow> boid"

subsection \<open>Projectile.update\<close>

definition Projectile_update :: "heap \<Rightarrow> projectile \<Rightarrow> heap \<times> projectile" where
  "Projectile_update h p =
     (if \<not> active p \<or> health (h (target_boid p)) \<le> 0 then (h, p\<lparr>active := False\<rparr>)
      else
        (let t = target_boid p;
             dx = fst (position (h t)) - fst (pos p);
             dy = snd (position (h t)) - snd (pos p);
             dist = distance (pos p) (position (h t));
             p1 = p\<lparr>projectile.velocity :=
                     (if dist > 0 then (dx / dist * speed p, dy / dist * speed p)
                      else (0, 0))\<rparr>;
             p2 = p1\<lparr>pos := (fst (pos p1) + fst (projectile.velocity p1),
                               snd (pos p1) + snd (projectile.velocity p1))\<rparr>
         in if distance (pos p2) (position (h t)) < BOID_RADIUS
            then ((if \<not> shielded (h t)
                   then h(t := (h t)\<lparr>health := health (h t) - 5\<rparr>) else h),
                  p2\<lparr>active := False\<rparr>)
            else (h, p2)))"

subsection \<open>Boid.heal\_ally and Boid.apply\_shield\<close>

text \<open>The \<^verbatim>\<open>for ally in squad_allies\<close> loop of \<^verbatim>\<open>heal_ally\<close>.\<close>

fun heal_loop :: "heap \<Rightarrow> ref \<Rightarrow> ref list \<Rightarrow> heap" where
  "heal_loop h self [] = h"
| "heal_loop h self (ally # allies) =
     heal_loop
       (if distance (position (h self)) (position (h ally)) < 60 \<and> health (h ally) < 100
        then
          (let h1 = h(ally := (h ally)\<lparr>health := health (h ally) + 0.2\<rparr>)
           in if health (h1 ally) > 100 then h1(ally := (h1 ally)\<lparr>health := 100\<rparr>) else h1)
        else h)
       self allies"

definition heal_ally :: "heap \<Rightarrow> ref \<Rightarrow> ref list \<Rightarrow> heap" where
  "heal_ally h self all_boids =
     (if is_medic (h self) then
        (let squad_allies =
               filter (\<lambda>b. squad_id (h b) = squad_id (h self) \<and> b \<noteq> self \<and> \<not> is_enemy (h b))
                 all_boids
         in heal_loop h self squad_allies)
      else h)"

text \<open>The \<^verbatim>\<open>for ally in squad_members_to_shield\<close> loop of \<^verbatim>\<open>apply_shield\<close>.\<close>

fun shield_loop :: "heap \<Rightarrow> ref list \<Rightarrow> heap" where
  "shield_loop h [] = h"
| "shield_loop h (ally # allies) =
     shield_loop (h(ally := (h ally)\<lparr>shielded := True, shield_timer := 180\<rparr>)) allies"

definition apply_shield :: "heap \<Rightarrow> ref \<Rightarrow> ref list \<Rightarrow> heap" where
  "apply_shield h self all_boids =
     (if is_leader (h self) \<and> \<not> is_enemy (h self) \<and> shield_timer (h self) \<le> 0 then
        (let squad_members_to_shield =
               filter (\<lambda>b. squad_id (h b) = squad_id (h self) \<and> \<not> is_leader (h b) \<and>
                            \<not> is_enemy (h b)) all_boids;
             h1 = shield_loop h squad_members_to_shield
         in h1(self := (h1 self)\<lparr>shield_timer := 600\<rparr>))
      else h)"

subsection \<open>The behaviours of the state machine\<close>

text \<open>
  \<^verbatim>\<open>xs[i]\<close> on a Python list: a negative index counts from the end, and an index out
  of range raises \<^verbatim>\<open>IndexError\<close>.
\<close>

definition list_get :: "'a list \<Rightarrow> int \<Rightarrow> error + 'a" where
  "list_get xs i =
     (let n = int (length xs)
      in if 0 \<le> i \<and> i < n then Inr (xs ! nat i)
         else if - n \<le> i \<and> i < 0 then Inr (xs ! nat (n + i))
         else Inl IndexError)"

text \<open>
  \<^verbatim>\<open>min(xs, key=...)\<close> on a non-empty list keeps the element it holds unless a later
  one has a strictly smaller key: \<open>min_key_from key x xs\<close> is \<^verbatim>\<open>min([x] + xs, key=key)\<close>.
\<close>

fun min_key_from :: "('a \<Rightarrow> real) \<Rightarrow> 'a \<Rightarrow> 'a list \<Rightarrow> 'a" where
  "min_key_from key best [] = best"
| "min_key_from key best (x # xs) =
     min_key_from key (if key x < key best then x else best) xs"

text \<open>Lines 219 to 240 of \<^verbatim>\<open>handle_patrol\<close>: the leader's and the follower's steering.\<close>

definition patrol_steer :: "heap \<Rightarrow> ref \<Rightarrow> int \<Rightarrow> error + heap" where
  "patrol_steer h self squad_size =
     (let s = h self in
      if is_leader s then
        (if waypoints s \<noteq> [] then
           (case list_get (waypoints s) (current_wp s) of
              Inl e \<Rightarrow> Inl e
            | Inr target \<Rightarrow>
                (let dx = fst target - fst (position s);
                     dy = snd target - snd (position s)
                 in if distance (position s) target < 10
                    then Inr (h(self := s\<lparr>current_wp :=
                                 (current_wp s + 1) mod int (length (waypoints s))\<rparr>))
                    else Inr (h(self := s\<lparr>velocity :=
                                 (fst (velocity s) + 0.05 * dx, snd (velocity s) + 0.05 * dy)\<rparr>))))
         else Inr h)
      else
        (case leader_ref s of
           Some l \<Rightarrow>
             if health (h l) > 0 then
               (case get_formation_offset (index_in_squad s) FORMATION_MODE squad_size of
                  Inl e \<Rightarrow> Inl e
                | Inr off \<Rightarrow>
                    (let target = (fst (position (h l)) + fst off, snd (position (h l)) + snd off);
                         dx = fst target - fst (position s);
                         dy = snd target - snd (position s)
                     in Inr (h(self := s\<lparr>formation_offset := off,
                                 velocity := (fst (velocity s) + 0.04 * dx,
                                              snd (velocity s) + 0.04 * dy)\<rparr>))))
             else Inr (h(self := s\<lparr>leader_ref := None\<rparr>))
         | None \<Rightarrow> Inr (h(self := s\<lparr>leader_ref := None\<rparr>))))"

text \<open>Lines 242 to 249 of \<^verbatim>\<open>handle_patrol\<close>: the transition to ENGAGE.\<close>

definition acquire_target :: "heap \<Rightarrow> ref \<Rightarrow> ref list \<Rightarrow> heap" where
  "acquire_target h self all_boids =
     (let s = h self;
          potential_enemies =
            filter (\<lambda>b. is_enemy (h b) \<noteq> is_enemy s \<and> health (h b) > 0) all_boids;
          enemies_in_detection_range =
            filter (\<lambda>b. distance (position s) (position (h b)) < detection_range s)
              potential_enemies
      in case enemies_in_detection_range of
           [] \<Rightarrow> h
         | e # es \<Rightarrow>
             h(self := s\<lparr>target_enemy :=
                           Some (min_key_from (\<lambda>e. distance (position s) (position (h e))) e es),
                         state := ''ENGAGE'',
                         attacking := True\<rparr>))"

definition handle_patrol :: "heap \<Rightarrow> ref \<Rightarrow> ref list \<Rightarrow> int \<Rightarrow> error + heap" where
  "handle_patrol h self all_boids squad_size =
     (case patrol_steer h self squad_size of
        Inl e \<Rightarrow> Inl e
      | Inr h1 \<Rightarrow> Inr (acquire_target h1 self all_boids))"

text \<open>\<^verbatim>\<open>Projectile(pos, target_boid)\<close>, the constructor.\<close>

definition Projectile :: "point \<Rightarrow> ref \<Rightarrow> projectile" where
  "Projectile p t =
     \<lparr>pos = p, target_boid = t, projectile.velocity = (0, 0), speed = 5, active = True\<rparr>"

text \<open>
  \<^verbatim>\<open>handle_engage\<close> appends to the global list \<^verbatim>\<open>projectiles\<close>, which the model
  passes in and returns.
\<close>

definition handle_engage ::
  "heap \<Rightarrow> projectile list \<Rightarrow> ref \<Rightarrow> ref list \<Rightarrow> heap \<times> projectile list" where
  "handle_engage h projectiles self all_boids =
     (let s = h self;
          lost = s\<lparr>attacking := False, target_enemy := None, state := ''PATROL''\<rparr>;
          (s1, projectiles1) =
            (case target_enemy s of
               Some t \<Rightarrow>
                 if health (h t) > 0 then
                   (let s' =
                          (if distance (position s) (position (h t)) > firing_range s * 0.8
                           then
                             (let dx = fst (position (h t)) - fst (position s);
                                  dy = snd (position (h t)) - snd (position s)
                              in s\<lparr>velocity := (fst (velocity s) + 0.05 * dx,
                                                snd (velocity s) + 0.05 * dy)\<rparr>)
                           else s\<lparr>velocity := (fst (velocity s) * 0.9,
                                               snd (velocity s) * 0.9)\<rparr>)
                    in if projectile_cooldown s' = 0 \<and>
                          distance (position s') (position (h t)) \<le> firing_range s'
                       then (s'\<lparr>projectile_cooldown := 60\<rparr>,
                             projectiles @ [Projectile (position s') t])
                       else (s', projectiles))
                 else (lost, projectiles)
             | None \<Rightarrow> (lost, projectiles));
          s2 = (if health s1 < 30 \<and> \<not> is_enemy s1 then s1\<lparr>state := ''EVADE''\<rparr> else s1)
      in (h(self := s2), projectiles1))"

text \<open>
  \<^verbatim>\<open>handle_evade\<close>; \<open>r1\<close> and \<open>r2\<close> are the values of the two calls of
  \<^verbatim>\<open>random.uniform(-1, 1)\<close>, which are made only when the speed is zero.
\<close>

definition handle_evade :: "heap \<Rightarrow> ref \<Rightarrow> ref list \<Rightarrow> real \<Rightarrow> real \<Rightarrow> heap" where
  "handle_evade h self all_boids r1 r2 =
     (let s = h self;
          threats =
            filter (\<lambda>b. is_enemy (h b) \<noteq> is_enemy s \<and> health (h b) > 0 \<and>
                         distance (position s) (position (h b)) < detection_range s * 1.5)
              all_boids
      in case threats of
           t # ts \<Rightarrow>
             (let closest_threat =
                    min_key_from (\<lambda>t. distance (position s) (position (h t))) t ts;
                  dx = fst (position s) - fst (position (h closest_threat));
                  dy = snd (position s) - snd (position (h closest_threat));
                  v = (fst (velocity s) + dx * 0.1, snd (velocity s) + dy * 0.1);
                  speed = hypot (fst v) (snd v)
              in if speed < MAX_SPEED / 2 then
                   h(self := s\<lparr>velocity :=
                       (if speed > 0 then fst v / speed * (MAX_SPEED / 2)
                        else r1 * MAX_SPEED / 2,
                        if speed > 0 then snd v / speed * (MAX_SPEED / 2)
                        else r2 * MAX_SPEED / 2)\<rparr>)
                 else h(self := s\<lparr>velocity := v\<rparr>))
         | [] \<Rightarrow>
             (if health s > 50 then h(self := s\<lparr>state := ''PATROL''\<rparr>)
              else h(self := s\<lparr>state := ''PATROL''\<rparr>)))"

subsection \<open>Boid.update\<close>

text \<open>Lines 161 to 167: the timers.\<close>

definition decrement_timers :: "boid \<Rightarrow> boid" where
  "decrement_timers s =
     (let s1 = (if projectile_cooldown s > 0
                then s\<lparr>projectile_cooldown := projectile_cooldown s - 1\<rparr> else s);
          s2 = (if shield_timer s1 > 0 then s1\<lparr>shield_timer := shield_timer s1 - 1\<rparr> else s1)
      in if shielded s2 \<and> shield_timer s2 \<le> 0 then s2\<lparr>shielded := False\<rparr> else s2)"

text \<open>Line 180: the neighbours used by the flocking forces.\<close>

definition neighbors :: "heap \<Rightarrow> ref \<Rightarrow> ref list \<Rightarrow> ref list" where
  "neighbors h self all_boids =
     filter (\<lambda>b. b \<noteq> self \<and> distance (position (h self)) (position (h b)) < NEIGHBOR_RADIUS)
       all_boids"

text \<open>Lines 195 to 198: the separation loop, on the velocity of \<^verbatim>\<open>self\<close>.\<close>

fun separation :: "heap \<Rightarrow> ref \<Rightarrow> ref list \<Rightarrow> point \<Rightarrow> point" where
  "separation h self [] v = v"
| "separation h self (b # bs) v =
     separation h self bs
       (if distance (position (h self)) (position (h b)) < AVOID_RADIUS
        then (fst v + (fst (position (h self)) - fst (position (h b))) * 0.05,
              snd v + (snd (position (h self)) - snd (position (h b))) * 0.05)
        else v)"

text \<open>Lines 180 to 198: cohesion, alignment and separation.\<close>

definition flocking :: "heap \<Rightarrow> ref \<Rightarrow> ref list \<Rightarrow> heap" where
  "flocking h self all_boids =
     (let s = h self;
          nb = neighbors h self all_boids
      in if nb \<noteq> [] then
           (let n = real (length nb);
                avg_pos = (sum_list (map (\<lambda>b. fst (position (h b))) nb) / n,
                           sum_list (map (\<lambda>b. snd (position (h b))) nb) / n);
                v1 = (fst (velocity s) + 0.01 * (fst avg_pos - fst (position s)),
                      snd (velocity s) + 0.01 * (snd avg_pos - snd (position s)));
                avg_vel = (sum_list (map (\<lambda>b. fst (velocity (h b))) nb) / n,
                           sum_list (map (\<lambda>b. snd (velocity (h b))) nb) / n);
                v2 = (fst v1 + 0.05 * (fst avg_vel - fst v1),
                      snd v1 + 0.05 * (snd avg_vel - snd v1))
            in h(self := s\<lparr>velocity := separation h self nb v2\<rparr>))
         else h)"

text \<open>
  The speed cap and the move are the places where claims bound the result of float
  arithmetic, so there every float operation is rounded. \<open>binary64\<close> rounds a real
  to the nearest IEEE 754 double (53 bits of precision, smallest normal exponent
  -1022, ties to the even significand), for values below the overflow threshold.
  \<open>math_hypot\<close> is \<^verbatim>\<open>math.hypot\<close>, taken as correctly rounded.
\<close>

definition round_ties_even :: "real \<Rightarrow> int" where
  "round_ties_even q =
     (let f = \<lfloor>q\<rfloor>; r = q - of_int f
      in if r < 1 / 2 then f else if r > 1 / 2 then f + 1
         else if even f then f else f + 1)"

definition binary64 :: "real \<Rightarrow> real" where
  "binary64 x =
     (if x = 0 then 0
      else
        (let e = max \<lfloor>log 2 \<bar>x\<bar>\<rfloor> (- 1022) - 52
         in of_int (round_ties_even (x / 2 powr (of_int e))) * 2 powr (of_int e)))"

definition math_hypot :: "real \<Rightarrow> real \<Rightarrow> real" where
  "math_hypot x y = binary64 (hypot x y)"

text \<open>
  Lines 200 to 204: the speed cap. The quotient is rounded, then the product with
  MAX\_SPEED.
\<close>

definition cap_speed :: "boid \<Rightarrow> boid" where
  "cap_speed s =
     (let speed = math_hypot (fst (velocity s)) (snd (velocity s))
      in if speed > MAX_SPEED
         then s\<lparr>velocity := (binary64 (binary64 (fst (velocity s) / speed) * MAX_SPEED),
                             binary64 (binary64 (snd (velocity s) / speed) * MAX_SPEED))\<rparr>
         else s)"

text \<open>
  \<^verbatim>\<open>x % y\<close> on floats, as CPython's \<^verbatim>\<open>float_rem\<close> computes it for a divisor that
  is not zero (here the constants WIDTH and HEIGHT): the C function \<^verbatim>\<open>fmod\<close> gives
  the exact remainder with the sign of \<open>x\<close>, and a remainder whose sign differs from
  that of \<open>y\<close> has \<open>y\<close> added to it. This addition is a float addition, and its
  rounding decides whether the result stays below \<open>y\<close>.
\<close>

definition fmod :: "real \<Rightarrow> real \<Rightarrow> real" where
  "fmod x y =
     (let q = x / y
      in x - y * of_int (if q \<ge> 0 then \<lfloor>q\<rfloor> else \<lceil>q\<rceil>))"

definition float_rem :: "real \<Rightarrow> real \<Rightarrow> real" where
  "float_rem x y =
     (let m = fmod x y
      in if m \<noteq> 0 then (if (y < 0) \<noteq> (m < 0) then binary64 (m + y) else m) else 0)"

text \<open>Lines 206 to 212: the move, a rounded float addition, and the wrap.\<close>

definition move_and_wrap :: "boid \<Rightarrow> boid" where
  "move_and_wrap s =
     (let p = (binary64 (fst (position s) + fst (velocity s)),
               binary64 (snd (position s) + snd (velocity s)))
      in s\<lparr>position := (float_rem (fst p) WIDTH, float_rem (snd p) HEIGHT)\<rparr>)"

text \<open>
  \<^verbatim>\<open>Boid.update\<close>. The result is the store and the global list of projectiles
  after the call, or the exception raised.
\<close>

definition Boid_update ::
  "heap \<Rightarrow> projectile list \<Rightarrow> ref \<Rightarrow> ref list \<Rightarrow> int \<Rightarrow> real \<Rightarrow> real
     \<Rightarrow> error + heap \<times> projectile list" where
  "Boid_update h projectiles self all_boids squad_size r1 r2 =
     (if health (h self) \<le> 0 then Inr (h, projectiles)
      else
        (let h1 = h(self := decrement_timers (h self))
         in case (if state (h1 self) = ''PATROL'' then
                    (case handle_patrol h1 self all_boids squad_size of
                       Inl e \<Rightarrow> Inl e
                     | Inr h2 \<Rightarrow> Inr (h2, projectiles))
                  else if state (h1 self) = ''ENGAGE'' then
                    Inr (handle_engage h1 projectiles self all_boids)
                  else if state (h1 self) = ''EVADE'' then
                    Inr (handle_evade h1 self all_boids r1 r2, projectiles)
                  else Inr (h1, projectiles)) of
              Inl e \<Rightarrow> Inl e
            | Inr (h2, projectiles2) \<Rightarrow>
                (let h3 = flocking h2 self all_boids;
                     h4 = h3(self := cap_speed (h3 self));
                     h5 = h4(self := move_and_wrap (h4 self))
                 in Inr (heal_ally h5 self all_boids, projectiles2))))"

text \<open>
  Lines 158 to 198 of \<^verbatim>\<open>update\<close> on a live agent: the store and the projectiles when
  the speed cap is reached, after the timers, the behaviour of the state and the
  flocking forces.
\<close>

definition before_cap ::
  "heap \<Rightarrow> projectile list \<Rightarrow> ref \<Rightarrow> ref list \<Rightarrow> int \<Rightarrow> real \<Rightarrow> real
     \<Rightarrow> error + heap \<times> projectile list" where
  "before_cap h projectiles self all_boids squad_size r1 r2 =
     (let h1 = h(self := decrement_timers (h self))
      in case (if state (h1 self) = ''PATROL'' then
                 (case handle_patrol h1 self all_boids squad_size of
                    Inl e \<Rightarrow> Inl e
                  | Inr h2 \<Rightarrow> Inr (h2, projectiles))
               else if state (h1 self) = ''ENGAGE'' then
                 Inr (handle_engage h1 projectiles self all_boids)
               else if state (h1 self) = ''EVADE'' then
                 Inr (handle_evade h1 self all_boids r1 r2, projectiles)
               else Inr (h1, projectiles)) of
           Inl e \<Rightarrow> Inl e
         | Inr (h2, projectiles2) \<Rightarrow> Inr (flocking h2 self all_boids, projectiles2))"

text \<open>
  \<^verbatim>\<open>Boid.__init__\<close>; \<open>v0\<close> and \<open>v1\<close> are the values of its two calls of
  \<^verbatim>\<open>random.uniform(-1, 1)\<close>.
\<close>

definition Boid :: "real \<Rightarrow> real \<Rightarrow> int \<Rightarrow> bool \<Rightarrow> int \<Rightarrow> bool \<Rightarrow> real \<Rightarrow> real \<Rightarrow> boid" where
  "Boid x y sq leader idx enemy v0 v1 =
     \<lparr>position = (x, y), velocity = (v0, v1), squad_id = sq, is_leader = leader,
      index_in_squad = idx, leader_ref = None, formation_offset = (0, 0), waypoints = [],
      current_wp = 0, health = 100, attacking = False, target_enemy = None,
      is_medic = (idx = 0 \<and> \<not> leader \<and> \<not> enemy), shielded = False, shield_timer = 0,
      projectile_cooldown = 0, is_enemy = enemy, firing_range = 200, detection_range = 300,
      state = ''PATROL''\<rparr>"

subsection \<open>An example store\<close>

text \<open>
  A player squad with its leader (reference 0), its medic (1) and a second follower (2),
  and an enemy leader (3); every other reference holds a fresh follower at the origin.
\<close>

definition squad_store :: heap where
  "squad_store =
     (\<lambda>_. Boid 0 0 0 False 0 False 0 0)
       (0 := Boid 150 350 0 True 0 False 0 0,
        1 := Boid 160 350 0 False 0 False 0 0,
        2 := Boid 140 360 0 False 1 False 0 0,
        3 := Boid 400 350 100 True 0 True 0 0)"

text \<open>The same store with the leader and the second follower wounded.\<close>

definition wounded_store :: heap where
  "wounded_store =
     squad_store(0 := (squad_store 0)\<lparr>health := 99.9\<rparr>, 2 := (squad_store 2)\<lparr>health := 50\<rparr>)"

text \<open>The same store with the second follower dead.\<close>

definition dead_store :: heap where
  "dead_store = squad_store(2 := (squad_store 2)\<lparr>health := 0\<rparr>)"

text \<open>
  The same store with the medic in state EVADE, ten units from the enemy leader and
  moving towards it at speed 1.
\<close>

definition evade_store :: heap where
  "evade_store =
     squad_store(1 := (squad_store 1)
       \<lparr>position := (410, 350), velocity := (- 1, 0), health := 20, state := ''EVADE''\<rparr>)"


text \<open>
  A store in which every reference holds a fresh follower at the origin whose initial
  velocity is \<open>(-2\<^sup>-\<^sup>7\<^sup>0, 0)\<close>; both components are doubles in the range of
  \<^verbatim>\<open>random.uniform(-1, 1)\<close>.
\<close>

definition wrap_store :: heap where
  "wrap_store = (\<lambda>_. Boid 0 0 0 False 1 False (- (1 / 2 ^ 70)) 0)"

text \<open>
  A store in which every reference holds a follower at the origin with velocity
  (4, 7), a speed above MAX\_SPEED.
\<close>

definition cap_store :: heap where
  "cap_store = (\<lambda>_. (Boid 0 0 0 False 1 False 0 0)\<lparr>velocity := (4, 7)\<rparr>)"

subsection \<open>Detection\<close>

text \<open>
  The tests of the two comprehensions at lines 243 and 244: \<open>b\<close> is of the other
  faction, alive, and strictly within the detection range of \<open>self\<close>.
\<close>

definition detectable :: "heap \<Rightarrow> ref \<Rightarrow> ref \<Rightarrow> bool" where
  "detectable h self b \<longleftrightarrow>
     is_enemy (h b) \<noteq> is_enemy (h self) \<and> health (h b) > 0 \<and>
     distance (position (h self)) (position (h b)) < detection_range (h self)"

subsection \<open>The part of the store a behaviour leaves alone\<close>

text \<open>
  \<open>keeps h self h'\<close>: the stores agree on every object but \<open>self\<close>, and on the
  health, the role and the squad of \<open>self\<close>.
\<close>

definition keeps :: "heap \<Rightarrow> ref \<Rightarrow> heap \<Rightarrow> bool" where
  "keeps h self h' \<longleftrightarrow>
     (\<forall>b. b \<noteq> self \<longrightarrow> h' b = h b) \<and>
     health (h' self) = health (h self) \<and> is_medic (h' self) = is_medic (h self) \<and>
     squad_id (h' self) = squad_id (h self) \<and> is_enemy (h' self) = is_enemy (h self) \<and>
     is_leader (h' self) = is_leader (h self)"

section \<open>Basic facts\<close>

lemma hypot_zero_right: "hypot x 0 = \<bar>x\<bar>"
  by (simp add: hypot_def)

lemma shield_loop_eq:
  "shield_loop h ms b =
     (if b \<in> set ms then (h b)\<lparr>shielded := True, shield_timer := 180\<rparr> else h b)"
  by (induction ms arbitrary: h) auto

lemma keeps_refl: "keeps h self h"
  by (simp add: keeps_def)

lemma keeps_trans: "keeps h self h1 \<Longrightarrow> keeps h1 self h2 \<Longrightarrow> keeps h self h2"
  by (simp add: keeps_def)

lemma keeps_decrement_timers: "keeps h self (h(self := decrement_timers (h self)))"
  by (simp add: keeps_def decrement_timers_def Let_def)

lemma keeps_patrol_steer: "patrol_steer h self sq = Inr h1 \<Longrightarrow> keeps h self h1"
  by (auto simp: patrol_steer_def keeps_def Let_def split: if_splits sum.splits option.splits)

lemma keeps_acquire_target: "keeps h self (acquire_target h self bs)"
  by (simp add: acquire_target_def keeps_def Let_def split: list.splits)

lemma keeps_handle_patrol: "handle_patrol h self bs sq = Inr h1 \<Longrightarrow> keeps h self h1"
  by (auto simp: handle_patrol_def split: sum.splits
      intro: keeps_trans [OF keeps_patrol_steer keeps_acquire_target])

lemma keeps_handle_engage: "keeps h self (fst (handle_engage h ps self bs))"
  by (simp add: handle_engage_def keeps_def Let_def split: option.splits prod.splits)

lemma keeps_handle_evade: "keeps h self (handle_evade h self bs r1 r2)"
  by (simp add: handle_evade_def keeps_def Let_def split: list.splits)

lemma keeps_flocking: "keeps h self (flocking h self bs)"
  by (simp add: flocking_def keeps_def Let_def)

lemma keeps_cap_move: "keeps h self (h(self := move_and_wrap (cap_speed (h self))))"
  by (simp add: keeps_def move_and_wrap_def cap_speed_def Let_def)

lemma Boid_update_stages:
  assumes "health (h self) > 0"
    and "Boid_update h ps self bs sq r1 r2 = Inr (h', ps')"
  shows "\<exists>h3. keeps h self h3 \<and>
              h' = heal_ally (h3(self := move_and_wrap (cap_speed (h3 self)))) self bs"
proof -
  let ?h1 = "h(self := decrement_timers (h self))"
  have k1: "keeps h self ?h1" by (rule keeps_decrement_timers)
  obtain h2 where k2: "keeps ?h1 self h2"
    and r: "h' = heal_ally ((flocking h2 self bs)
               (self := move_and_wrap (cap_speed (flocking h2 self bs self)))) self bs"
  proof (cases "state (?h1 self) = ''PATROL''")
    case True
    with assms obtain h2 where "handle_patrol ?h1 self bs sq = Inr h2"
      and "h' = heal_ally ((flocking h2 self bs)
               (self := move_and_wrap (cap_speed (flocking h2 self bs self)))) self bs"
      by (auto simp: Boid_update_def Let_def split: sum.splits)
    then show ?thesis using that keeps_handle_patrol by blast
  next
    case np: False
    show ?thesis
    proof (cases "state (?h1 self) = ''ENGAGE''")
      case True
      with np assms have
        "h' = heal_ally ((flocking (fst (handle_engage ?h1 ps self bs)) self bs)
               (self := move_and_wrap (cap_speed
                  (flocking (fst (handle_engage ?h1 ps self bs)) self bs self)))) self bs"
        by (auto simp: Boid_update_def Let_def split: prod.splits)
      then show ?thesis using that keeps_handle_engage by blast
    next
      case ne: False
      show ?thesis
      proof (cases "state (?h1 self) = ''EVADE''")
        case True
        with np ne assms have
          "h' = heal_ally ((flocking (handle_evade ?h1 self bs r1 r2) self bs)
                 (self := move_and_wrap (cap_speed
                    (flocking (handle_evade ?h1 self bs r1 r2) self bs self)))) self bs"
          by (auto simp: Boid_update_def Let_def)
        then show ?thesis using that keeps_handle_evade by blast
      next
        case False
        with np ne assms have
          "h' = heal_ally ((flocking ?h1 self bs)
                 (self := move_and_wrap (cap_speed (flocking ?h1 self bs self)))) self bs"
          by (auto simp: Boid_update_def Let_def)
        then show ?thesis using that keeps_refl by blast
      qed
    qed
  qed
  have "keeps h self (flocking h2 self bs)"
    using k1 k2 keeps_flocking keeps_trans by blast
  with r show ?thesis by blast
qed

lemma hypot_nonneg: "0 \<le> hypot x y"
  by (simp add: hypot_def)

lemma hypot_less_iff: "0 < r \<Longrightarrow> hypot x y < r \<longleftrightarrow> x * x + y * y < r * r"
  using real_sqrt_less_iff [of "x * x + y * y" "r * r"] by (simp add: hypot_def)

lemma less_hypot_iff: "0 \<le> r \<Longrightarrow> r < hypot x y \<longleftrightarrow> r * r < x * x + y * y"
  using real_sqrt_less_iff [of "r * r" "x * x + y * y"] by (simp add: hypot_def)

lemma heal_loop_other: "b \<notin> set as \<Longrightarrow> heal_loop h self as b = h b"
  by (induction as arbitrary: h) (auto simp: Let_def)

lemma health_update_id: "\<exists>w. (r :: boid) = r\<lparr>health := w\<rparr>"
  by (rule exI [of _ "health r"]) simp

lemma heal_loop_health_only: "\<exists>v. heal_loop h self as b = (h b)\<lparr>health := v\<rparr>"
proof (induction as arbitrary: h)
  case Nil
  have "heal_loop h self [] b = (h b)\<lparr>health := health (h b)\<rparr>" by simp
  then show ?case ..
next
  case (Cons a as)
  let ?h1 = "if distance (position (h self)) (position (h a)) < 60 \<and> health (h a) < 100
        then
          (let h1 = h(a := (h a)\<lparr>health := health (h a) + 0.2\<rparr>)
           in if health (h1 a) > 100 then h1(a := (h1 a)\<lparr>health := 100\<rparr>) else h1)
        else h"
  obtain v where v: "heal_loop ?h1 self as b = (?h1 b)\<lparr>health := v\<rparr>"
    using Cons.IH by blast
  have "\<exists>w. ?h1 b = (h b)\<lparr>health := w\<rparr>"
  proof (cases "b = a")
    case True
    then show ?thesis using health_update_id [of "h a"] by (auto simp: Let_def)
  next
    case False
    then show ?thesis using health_update_id [of "h b"] by (auto simp: Let_def)
  qed
  then obtain w where "?h1 b = (h b)\<lparr>health := w\<rparr>" ..
  with v have "heal_loop ?h1 self as b = (h b)\<lparr>health := v\<rparr>" by simp
  then show ?case by auto
qed

lemma heal_loop_frame:
  "(heal_loop h self as b)\<lparr>health := health (h b)\<rparr> = h b \<and>
   (b \<notin> set as \<longrightarrow> heal_loop h self as b = h b)"
  using heal_loop_health_only [of h self as b] heal_loop_other [of b as h self] by auto

lemma heal_loop_eq:
  assumes "distinct as" and "self \<notin> set as"
  shows "heal_loop h self as b =
           (if b \<in> set as \<and> distance (position (h self)) (position (h b)) < 60 \<and>
               health (h b) < 100
            then (h b)\<lparr>health := min (health (h b) + 0.2) 100\<rparr> else h b)"
  using assms
proof (induction as arbitrary: h)
  case Nil
  then show ?case by simp
next
  case (Cons a as)
  let ?h1 = "if distance (position (h self)) (position (h a)) < 60 \<and> health (h a) < 100
        then
          (let h1 = h(a := (h a)\<lparr>health := health (h a) + 0.2\<rparr>)
           in if health (h1 a) > 100 then h1(a := (h1 a)\<lparr>health := 100\<rparr>) else h1)
        else h"
  from Cons.prems have d: "distinct as" "self \<notin> set as" "a \<notin> set as" "a \<noteq> self"
    by auto
  have step: "heal_loop h self (a # as) b = heal_loop ?h1 self as b"
    by simp
  have others: "\<And>c. c \<noteq> a \<Longrightarrow> ?h1 c = h c"
    by (simp add: Let_def)
  have here: "?h1 a = (if distance (position (h self)) (position (h a)) < 60 \<and> health (h a) < 100
            then (h a)\<lparr>health := min (health (h a) + 0.2) 100\<rparr> else h a)"
    by (simp add: Let_def min_def)
  show ?case
  proof (cases "b = a")
    case True
    with d have "heal_loop ?h1 self as b = ?h1 a"
      using heal_loop_other [of a as ?h1 self] by simp
    with True here show ?thesis unfolding step by simp
  next
    case False
    have "heal_loop ?h1 self as b =
           (if b \<in> set as \<and> distance (position (?h1 self)) (position (?h1 b)) < 60 \<and>
               health (?h1 b) < 100
            then (?h1 b)\<lparr>health := min (health (?h1 b) + 0.2) 100\<rparr> else ?h1 b)"
      using Cons.IH [OF d(1) d(2)] .
    also have "?h1 b = h b" using False others by blast
    also have "?h1 self = h self" using d(4) others by metis
    finally show ?thesis unfolding step using False by simp
  qed
qed

lemma heal_ally_eq:
  assumes "distinct all_boids"
  shows "heal_ally h self all_boids b =
     (if is_medic (h self) \<and> b \<in> set all_boids \<and> b \<noteq> self \<and>
         squad_id (h b) = squad_id (h self) \<and> \<not> is_enemy (h b) \<and>
         distance (position (h self)) (position (h b)) < 60 \<and> health (h b) < 100
      then (h b)\<lparr>health := min (health (h b) + 0.2) 100\<rparr> else h b)"
  using assms by (auto simp: heal_ally_def Let_def heal_loop_eq)

lemma heal_ally_frame:
  "(heal_ally h self all_boids b)\<lparr>health := health (h b)\<rparr> = h b \<and>
   (b \<notin> set all_boids \<or> b = self \<longrightarrow> heal_ally h self all_boids b = h b)"
  using heal_loop_frame [where h = h and self = self and b = b and
      as = "filter (\<lambda>b. squad_id (h b) = squad_id (h self) \<and> b \<noteq> self \<and> \<not> is_enemy (h b)) all_boids"]
  by (auto simp: heal_ally_def Let_def)

lemma Boid_update_follower:
  assumes "\<not> is_leader (h self)"
  shows "\<exists>h' ps'. Boid_update h ps self bs sq r1 r2 = Inr (h', ps')"
proof (cases "health (h self) \<le> 0")
  case True
  then show ?thesis by (simp add: Boid_update_def)
next
  case False
  let ?h1 = "h(self := decrement_timers (h self))"
  have nl: "\<not> is_leader (?h1 self)"
    using assms by (simp add: decrement_timers_def Let_def)
  have "\<exists>h2. patrol_steer ?h1 self sq = Inr h2"
    using nl by (simp add: patrol_steer_def Let_def get_formation_offset_def
        FORMATION_MODE_def split: option.splits)
  then have "\<exists>h2. handle_patrol ?h1 self bs sq = Inr h2"
    by (auto simp: handle_patrol_def)
  then show ?thesis
    using False by (auto simp: Boid_update_def Let_def split: prod.splits)
qed

lemma Boid_update_health:
  assumes "distinct all_boids" and "0 < health (h self)"
    and "Boid_update h ps self all_boids sq r1 r2 = Inr (h', ps')"
  shows "health (h' b) =
     (if is_medic (h self) \<and> b \<in> set all_boids \<and> b \<noteq> self \<and>
         squad_id (h b) = squad_id (h self) \<and> \<not> is_enemy (h b) \<and>
         distance (position (h' self)) (position (h b)) < 60 \<and> health (h b) < 100
      then min (health (h b) + 0.2) 100 else health (h b))"
proof -
  obtain h3 where k3: "keeps h self h3"
    and h': "h' = heal_ally (h3(self := move_and_wrap (cap_speed (h3 self)))) self all_boids"
    using Boid_update_stages [OF assms(2,3)] by blast
  let ?h5 = "h3(self := move_and_wrap (cap_speed (h3 self)))"
  have k5: "keeps h self ?h5"
    using k3 keeps_cap_move [of h3 self] keeps_trans by blast
  have self': "h' self = ?h5 self"
    unfolding h' using heal_ally_frame [where h = ?h5 and self = self and all_boids = all_boids and b = self] by simp
  have eq: "h' b =
     (if is_medic (?h5 self) \<and> b \<in> set all_boids \<and> b \<noteq> self \<and>
         squad_id (?h5 b) = squad_id (?h5 self) \<and> \<not> is_enemy (?h5 b) \<and>
         distance (position (?h5 self)) (position (?h5 b)) < 60 \<and> health (?h5 b) < 100
      then (?h5 b)\<lparr>health := min (health (?h5 b) + 0.2) 100\<rparr> else ?h5 b)"
    unfolding h' by (rule heal_ally_eq [OF assms(1)])
  show ?thesis
  proof (cases "b = self")
    case True
    then show ?thesis using self' k5 by (simp add: keeps_def)
  next
    case False
    with k5 have b: "?h5 b = h b" by (simp add: keeps_def)
    from k5 have m: "is_medic (?h5 self) = is_medic (h self)"
      and s: "squad_id (?h5 self) = squad_id (h self)"
      unfolding keeps_def by blast+
    show ?thesis
      unfolding eq b m s self' by simp
  qed
qed

lemma min_key_from_first:
  "\<exists>pre post. x # xs = pre @ min_key_from key x xs # post \<and>
     (\<forall>c \<in> set pre. key (min_key_from key x xs) < key c) \<and>
     (\<forall>c \<in> set post. key (min_key_from key x xs) \<le> key c)"
proof (induction xs arbitrary: x)
  case Nil
  show ?case by (rule exI [of _ "[]"], rule exI [of _ "[]"]) simp
next
  case (Cons y ys)
  show ?case
  proof (cases "key y < key x")
    case True
    let ?m = "min_key_from key y ys"
    obtain pre post where p: "y # ys = pre @ ?m # post"
      and before: "\<forall>c \<in> set pre. key ?m < key c"
      and after: "\<forall>c \<in> set post. key ?m \<le> key c"
      using Cons.IH [of y] by blast
    have "key ?m \<le> key y"
    proof (cases pre)
      case Nil
      with p have "?m = y" by (metis append_Nil list.inject)
      then show ?thesis by (metis order_refl)
    next
      case (Cons a pre')
      with p have "y \<in> set pre" by simp
      with before show ?thesis by fastforce
    qed
    with True have "key ?m < key x" by simp
    with before have "\<forall>c \<in> set (x # pre). key ?m < key c" by simp
    moreover have "x # y # ys = (x # pre) @ ?m # post" using p by simp
    moreover have "min_key_from key x (y # ys) = ?m" using True by simp
    ultimately show ?thesis using after by metis
  next
    case False
    let ?m = "min_key_from key x ys"
    have m: "min_key_from key x (y # ys) = ?m" using False by simp
    obtain pre post where p: "x # ys = pre @ ?m # post"
      and before: "\<forall>c \<in> set pre. key ?m < key c"
      and after: "\<forall>c \<in> set post. key ?m \<le> key c"
      using Cons.IH [of x] by blast
    show ?thesis
    proof (cases pre)
      case Nil
      with p have "?m = x" "post = ys" by (metis append_Nil list.inject)+
      with False after have "x # y # ys = [] @ ?m # (y # ys)"
        and "\<forall>c \<in> set (y # ys). key ?m \<le> key c" by simp_all
      then show ?thesis unfolding m by (metis empty_iff empty_set)
    next
      case (Cons a pre')
      with p have a: "a = x" and ys: "ys = pre' @ ?m # post"
        by (metis append_Cons list.inject)+
      from before Cons a have "key ?m < key x" by simp
      with False have "key ?m < key y" by simp
      with before Cons a have "\<forall>c \<in> set (x # y # pre'). key ?m < key c" by simp
      moreover have "x # y # ys = (x # y # pre') @ ?m # post" using ys by simp
      ultimately show ?thesis unfolding m using after by metis
    qed
  qed
qed

lemma patrol_steer_view:
  assumes "patrol_steer h self sq = Inr h1"
  shows "position (h1 b) = position (h b) \<and> is_enemy (h1 b) = is_enemy (h b) \<and>
         health (h1 b) = health (h b) \<and> detection_range (h1 b) = detection_range (h b)"
  using assms
  by (cases "b = self")
    (auto simp: patrol_steer_def Let_def split: if_splits sum.splits option.splits)

lemma filter_split_at:
  assumes "filter P xs = pre' @ t # post'"
  shows "\<exists>pre post. xs = pre @ t # post \<and> P t \<and> filter P pre = pre' \<and> filter P post = post'"
  using assms
proof (induction xs arbitrary: pre')
  case Nil
  then show ?case by simp
next
  case (Cons x xs)
  show ?case
  proof (cases "P x")
    case False
    with Cons.prems have "filter P xs = pre' @ t # post'" by simp
    then obtain pre post where "xs = pre @ t # post" "P t" "filter P pre = pre'"
      "filter P post = post'" using Cons.IH by blast
    with False have "x # xs = (x # pre) @ t # post \<and> P t \<and> filter P (x # pre) = pre' \<and>
      filter P post = post'" by simp
    then show ?thesis by blast
  next
    case True
    with Cons.prems have eq: "x # filter P xs = pre' @ t # post'" by simp
    show ?thesis
    proof (cases pre')
      case Nil
      with eq have "x = t" "filter P xs = post'" by simp_all
      with True Nil have "x # xs = [] @ t # xs \<and> P t \<and> filter P [] = pre' \<and>
        filter P xs = post'" by simp
      then show ?thesis by blast
    next
      case (Cons a pre'')
      with eq have a: "a = x" and "filter P xs = pre'' @ t # post'" by simp_all
      then obtain pre post where "xs = pre @ t # post" "P t" "filter P pre = pre''"
        "filter P post = post'" using Cons.IH by blast
      with True Cons a have "x # xs = (x # pre) @ t # post \<and> P t \<and>
        filter P (x # pre) = pre' \<and> filter P post = post'" by simp
      then show ?thesis by blast
    qed
  qed
qed

lemma hypot_scale: "hypot (x * k) (y * k) = \<bar>k\<bar> * hypot x y"
proof -
  have "x * k * (x * k) + y * k * (y * k) = (k * k) * (x * x + y * y)"
    by (simp add: algebra_simps)
  then show ?thesis
    by (simp add: hypot_def real_sqrt_mult)
qed

lemma hypot_rescale:
  assumes "0 < hypot x y" and "0 \<le> c"
  shows "hypot (x / hypot x y * c) (y / hypot x y * c) = c"
proof -
  have "hypot (x / hypot x y * c) (y / hypot x y * c) =
        hypot (x * (c / hypot x y)) (y * (c / hypot x y))"
    by simp
  also have "\<dots> = \<bar>c / hypot x y\<bar> * hypot x y"
    by (rule hypot_scale)
  also have "\<dots> = c"
    using assms by simp
  finally show ?thesis .
qed

text \<open>
  With a threat in range, \<^verbatim>\<open>handle_evade\<close> leaves a velocity of magnitude at least
  MAX_SPEED / 2, unless the boosted velocity was zero and the two random draws were
  taken.
\<close>

lemma handle_evade_speed:
  assumes "filter (\<lambda>b. is_enemy (h b) \<noteq> is_enemy (h self) \<and> health (h b) > 0 \<and>
               distance (position (h self)) (position (h b)) < detection_range (h self) * 1.5)
             all_boids = t # ts"
  shows "hypot (fst (velocity (handle_evade h self all_boids r1 r2 self)))
               (snd (velocity (handle_evade h self all_boids r1 r2 self))) \<ge> MAX_SPEED / 2 \<or>
         velocity (handle_evade h self all_boids r1 r2 self) =
           (r1 * MAX_SPEED / 2, r2 * MAX_SPEED / 2)"
proof -
  let ?s = "h self"
  let ?c = "min_key_from (\<lambda>t. distance (position ?s) (position (h t))) t ts"
  let ?v = "(fst (velocity ?s) + (fst (position ?s) - fst (position (h ?c))) * 0.1,
             snd (velocity ?s) + (snd (position ?s) - snd (position (h ?c))) * 0.1)"
  let ?speed = "hypot (fst ?v) (snd ?v)"
  have res: "velocity (handle_evade h self all_boids r1 r2 self) =
     (if ?speed < MAX_SPEED / 2 then
        (if ?speed > 0 then fst ?v / ?speed * (MAX_SPEED / 2) else r1 * MAX_SPEED / 2,
         if ?speed > 0 then snd ?v / ?speed * (MAX_SPEED / 2) else r2 * MAX_SPEED / 2)
      else ?v)"
    unfolding handle_evade_def Let_def assms by simp
  consider "\<not> ?speed < MAX_SPEED / 2" | "?speed < MAX_SPEED / 2" "0 < ?speed"
    | "?speed < MAX_SPEED / 2" "\<not> 0 < ?speed"
    by blast
  then show ?thesis
  proof cases
    case 1
    then show ?thesis unfolding res by simp
  next
    case 2
    have "hypot (fst ?v / ?speed * (MAX_SPEED / 2)) (snd ?v / ?speed * (MAX_SPEED / 2)) =
          MAX_SPEED / 2"
      using 2(2) by (rule hypot_rescale) (simp add: MAX_SPEED_def)
    with 2 show ?thesis unfolding res by simp
  next
    case 3
    then show ?thesis unfolding res by simp
  qed
qed

lemma floor_log2_below_1000: "\<lfloor>log 2 (1000 - 1 / 2 ^ 70 :: real)\<rfloor> = 9"
proof -
  have "(2::real) powr (of_int 9) \<le> 1000 - 1 / 2 ^ 70 \<and>
        1000 - 1 / 2 ^ 70 < (2::real) powr (of_int (9 + 1))"
    by simp
  then show ?thesis
    using floor_log_eq_powr_iff [of "1000 - 1 / 2 ^ 70" 2 9] by simp
qed

lemma round_ties_even_up:
  assumes "of_int n - 1 / 2 < q" and "q \<le> of_int n"
  shows "round_ties_even q = n"
proof (cases "q = of_int n")
  case True
  then show ?thesis by (simp add: round_ties_even_def)
next
  case False
  with assms have f: "\<lfloor>q\<rfloor> = n - 1" by linarith
  with assms show ?thesis by (simp add: round_ties_even_def Let_def)
qed

lemma binary64_below_1000: "binary64 (1000 - 1 / 2 ^ 70) = 1000"
proof -
  let ?x = "1000 - 1 / 2 ^ 70 :: real"
  have a: "\<bar>?x\<bar> = ?x" by simp
  have l: "\<lfloor>log 2 \<bar>?x\<bar>\<rfloor> = 9"
    by (simp only: a floor_log2_below_1000)
  have e: "max \<lfloor>log 2 \<bar>?x\<bar>\<rfloor> (- 1022) - 52 = - 43"
    by (simp only: l)
  have p: "(2::real) powr (of_int (- 43)) = 1 / 2 ^ 43"
    by (simp add: powr_minus inverse_eq_divide)
  have r: "round_ties_even (?x / (1 / 2 ^ 43)) = 1000 * 2 ^ 43"
    by (rule round_ties_even_up) simp_all
  have "binary64 ?x = of_int (round_ties_even (?x / (1 / 2 ^ 43))) * (1 / 2 ^ 43)"
    unfolding binary64_def Let_def e p by simp
  then show ?thesis unfolding r by simp
qed

lemma float_rem_tiny_negative: "float_rem (- (1 / 2 ^ 70)) WIDTH = WIDTH"
proof -
  have c: "\<lceil>- (1 / 2 ^ 70) / 1000 :: real\<rceil> = 0"
    by (rule ceiling_unique) simp_all
  have m: "fmod (- (1 / 2 ^ 70)) 1000 = - (1 / 2 ^ 70)"
    unfolding fmod_def Let_def c by simp
  have "float_rem (- (1 / 2 ^ 70)) 1000 = binary64 (- (1 / 2 ^ 70) + 1000)"
    unfolding float_rem_def Let_def m by simp
  also have "- (1 / 2 ^ 70) + 1000 = (1000 - 1 / 2 ^ 70 :: real)" by simp
  finally show ?thesis by (simp only: binary64_below_1000 WIDTH_def)
qed

lemma float_rem_zero: "float_rem 0 y = 0"
  by (simp add: float_rem_def fmod_def)

text \<open>
  What the wrap does guarantee: the remainder by a positive integer below 1024 lies
  between 0 and the divisor, the divisor included, and is below the divisor whenever
  the dividend is not negative. So after update both coordinates are in the closed
  ranges from 0 to WIDTH and from 0 to HEIGHT.
\<close>

lemma round_ties_even_le:
  assumes "q \<le> of_int n"
  shows "round_ties_even q \<le> n"
proof -
  have f: "\<lfloor>q\<rfloor> \<le> n" using assms by (simp add: floor_le_iff)
  show ?thesis
  proof (cases "q - of_int \<lfloor>q\<rfloor> < 1 / 2")
    case True
    then show ?thesis using f by (simp add: round_ties_even_def Let_def)
  next
    case False
    then have "of_int \<lfloor>q\<rfloor> < q" by linarith
    then have "\<lfloor>q\<rfloor> < n" using assms by linarith
    then show ?thesis by (simp add: round_ties_even_def Let_def)
  qed
qed

lemma round_ties_even_nonneg:
  assumes "0 \<le> q"
  shows "0 \<le> round_ties_even q"
proof -
  have "0 \<le> \<lfloor>q\<rfloor>" using assms by simp
  then show ?thesis by (simp add: round_ties_even_def Let_def)
qed

lemma binary64_bounds:
  assumes "0 < z" and "z \<le> of_int k" and "k < 1024"
  shows "0 \<le> binary64 z \<and> binary64 z \<le> of_int k"
proof -
  define e where "e = max \<lfloor>log 2 \<bar>z\<bar>\<rfloor> (- 1022) - 52"
  define u :: real where "u = 2 powr (of_int e)"
  have "z < 2 powr 10" using assms by simp
  then have "log 2 z < 10"
    using assms(1) by (simp add: log_less_iff del: powr_numeral)
  then have "\<lfloor>log 2 z\<rfloor> < 10" by linarith
  then have e: "e \<le> - 43" using assms(1) by (simp add: e_def)
  have u: "0 < u" by (simp add: u_def)
  define K where "K = k * 2 ^ nat (- e)"
  have "u = inverse (2 ^ nat (- e))"
    using e by (simp add: u_def powr_real_of_int)
  then have k: "of_int k = of_int K * u"
    by (simp add: K_def)
  have b: "binary64 z = of_int (round_ties_even (z / u)) * u"
    using assms(1) by (simp add: binary64_def Let_def e_def u_def)
  have "z / u \<le> of_int K"
    using assms(2) u unfolding k by (simp add: divide_le_eq)
  then have "round_ties_even (z / u) \<le> K" by (rule round_ties_even_le)
  then have "of_int (round_ties_even (z / u)) * u \<le> of_int K * u"
    using u by simp
  moreover have "0 \<le> round_ties_even (z / u)"
    using assms(1) u by (intro round_ties_even_nonneg) simp
  then have "0 \<le> of_int (round_ties_even (z / u)) * u"
    using u by simp
  ultimately show ?thesis unfolding b k by simp
qed

lemma fmod_range:
  assumes "0 < y"
  shows "- y < fmod x y \<and> fmod x y < y \<and> (0 \<le> x \<longrightarrow> 0 \<le> fmod x y)"
proof (cases "0 \<le> x / y")
  case True
  let ?t = "x / y - of_int \<lfloor>x / y\<rfloor>"
  have m: "fmod x y = y * ?t"
    using True assms by (simp add: fmod_def algebra_simps)
  have t: "0 \<le> ?t" "?t < 1" by linarith+
  have a: "0 \<le> y * ?t" using t(1) assms by simp
  have "y * ?t < y * 1" using t(2) assms by (rule mult_strict_left_mono)
  then have b: "y * ?t < y" by (simp only: mult_1_right)
  show ?thesis unfolding m using a b assms by (intro conjI impI) linarith+
next
  case False
  then have neg: "x < 0" using assms by (simp add: zero_le_divide_iff not_le)
  let ?t = "x / y - of_int \<lceil>x / y\<rceil>"
  have m: "fmod x y = y * ?t"
    using False assms by (simp add: fmod_def algebra_simps)
  have t: "?t \<le> 0" "- 1 < ?t" by linarith+
  have a: "y * ?t \<le> 0" using t(1) assms by (simp add: mult_le_0_iff)
  have "y * (- 1) < y * ?t" using t(2) assms by (rule mult_strict_left_mono)
  then have b: "- y < y * ?t" by (simp only: mult_minus1_right)
  show ?thesis unfolding m using a b assms neg by (intro conjI impI) linarith+
qed

lemma float_rem_bounds:
  assumes "0 < k" and "k < 1024"
  shows "0 \<le> float_rem x (of_int k) \<and> float_rem x (of_int k) \<le> of_int k \<and>
         (0 \<le> x \<longrightarrow> float_rem x (of_int k) < of_int k)"
proof -
  let ?y = "of_int k :: real"
  let ?m = "fmod x ?y"
  have y: "0 < ?y" using assms by simp
  note r = fmod_range [OF y, of x]
  consider "?m = 0" | "0 < ?m" | "?m < 0" by linarith
  then show ?thesis
  proof cases
    case 1
    then show ?thesis using y by (simp add: float_rem_def)
  next
    case 2
    then have "float_rem x ?y = ?m" using y by (simp add: float_rem_def Let_def)
    then show ?thesis using 2 r by simp
  next
    case 3
    then have f: "float_rem x ?y = binary64 (?m + ?y)"
      using y by (simp add: float_rem_def Let_def)
    have "0 < ?m + ?y" "?m + ?y \<le> ?y" using 3 r by simp_all
    then have "0 \<le> binary64 (?m + ?y) \<and> binary64 (?m + ?y) \<le> ?y"
      using assms(2) by (rule binary64_bounds)
    moreover have "\<not> 0 \<le> x" using 3 r by auto
    ultimately show ?thesis unfolding f by simp
  qed
qed

lemma position_after_update:
  assumes "0 < health (h self)"
    and "Boid_update h ps self all_boids sq r1 r2 = Inr (h', ps')"
  shows "0 \<le> fst (position (h' self)) \<and> fst (position (h' self)) \<le> WIDTH \<and>
         0 \<le> snd (position (h' self)) \<and> snd (position (h' self)) \<le> HEIGHT"
proof -
  obtain h3 where
    h': "h' = heal_ally (h3(self := move_and_wrap (cap_speed (h3 self)))) self all_boids"
    using Boid_update_stages [OF assms] by blast
  let ?h5 = "h3(self := move_and_wrap (cap_speed (h3 self)))"
  have "h' self = ?h5 self"
    unfolding h'
    using heal_ally_frame [where h = ?h5 and self = self and all_boids = all_boids and b = self]
    by simp
  then have p: "position (h' self) = position (move_and_wrap (cap_speed (h3 self)))"
    by simp
  have w: "WIDTH = of_int 1000" and ht: "HEIGHT = of_int 700"
    by (simp_all add: WIDTH_def HEIGHT_def)
  show ?thesis
    unfolding p move_and_wrap_def Let_def w ht
    using float_rem_bounds [of 1000] float_rem_bounds [of 700] by simp
qed

text \<open>Evaluating \<open>binary64\<close>: the binade of the argument and its nearest integer multiple.\<close>

lemma round_ties_even_near:
  assumes "of_int n - 1 / 2 < q" and "q < of_int n + 1 / 2"
  shows "round_ties_even q = n"
proof (cases "q < of_int n")
  case True
  with assms have "\<lfloor>q\<rfloor> = n - 1" by linarith
  with assms show ?thesis by (simp add: round_ties_even_def Let_def)
next
  case False
  with assms have "\<lfloor>q\<rfloor> = n" by linarith
  with assms show ?thesis by (simp add: round_ties_even_def Let_def)
qed

lemma binary64_eq:
  assumes "2 powr (of_int L) \<le> \<bar>x\<bar>" and "\<bar>x\<bar> < 2 powr (of_int (L + 1))"
    and "- 1022 \<le> L"
    and "of_int n - 1 / 2 < x / 2 powr (of_int (L - 52))"
    and "x / 2 powr (of_int (L - 52)) < of_int n + 1 / 2"
  shows "binary64 x = of_int n * 2 powr (of_int (L - 52))"
proof -
  have pos: "0 < \<bar>x\<bar>"
    using assms(1) by (smt (verit) powr_gt_zero)
  then have l: "\<lfloor>log 2 \<bar>x\<bar>\<rfloor> = L"
    using assms(1,2) floor_log_eq_powr_iff [of "\<bar>x\<bar>" 2 L] by simp
  have e: "max \<lfloor>log 2 \<bar>x\<bar>\<rfloor> (- 1022) - 52 = L - 52"
    using assms(3) unfolding l by simp
  have "round_ties_even (x / 2 powr (of_int (L - 52))) = n"
    using assms(4,5) by (rule round_ties_even_near)
  then show ?thesis
    using pos unfolding binary64_def Let_def e by simp
qed

lemma binary64_neg_tiny: "binary64 (- (1 / 2 ^ 70)) = - (1 / 2 ^ 70)"
proof -
  have "binary64 (- (1 / 2 ^ 70)) = of_int (- (2 ^ 52)) * 2 powr (of_int (- 70 - 52))"
    by (rule binary64_eq) (simp_all add: powr_minus inverse_eq_divide)
  then show ?thesis by (simp add: powr_minus inverse_eq_divide)
qed

text \<open>
  The speed cap: the store on which it acts, its value at the velocity (4, 7), and the
  bound on the magnitude it leaves, from the rounding error of each operation.
\<close>

lemma Boid_update_before_cap:
  assumes "0 < health (h self)"
    and "Boid_update h ps self bs sq r1 r2 = Inr (h', ps')"
  shows "\<exists>h3. before_cap h ps self bs sq r1 r2 = Inr (h3, ps') \<and>
              h' = heal_ally (h3(self := move_and_wrap (cap_speed (h3 self)))) self bs"
  using assms
  by (auto simp: Boid_update_def before_cap_def Let_def split: sum.splits prod.splits if_splits)

lemma sqrt_65_rounded: "math_hypot 4 7 = 4538647623875280 / 2 ^ 49"
proof -
  have h: "hypot 4 7 = sqrt 65" by (simp add: hypot_def)
  have lo: "(4538647623875280 - 1 / 2) / 2 ^ 49 < sqrt 65"
    by (rule real_less_rsqrt) (simp add: power2_eq_square)
  have hi: "sqrt 65 < (4538647623875280 + 1 / 2) / 2 ^ 49"
    by (rule real_less_lsqrt) (simp_all add: power2_eq_square)
  have b1: "8 \<le> sqrt 65" by (rule real_le_rsqrt) simp
  have b2: "sqrt 65 < 16" by (rule real_less_lsqrt) simp_all
  have "binary64 (sqrt 65) = of_int 4538647623875280 * 2 powr (of_int (3 - 52))"
  proof (rule binary64_eq)
    show "2 powr real_of_int 3 \<le> \<bar>sqrt 65\<bar>" using b1 by simp
    show "\<bar>sqrt 65\<bar> < 2 powr real_of_int (3 + 1)" using b2 by simp
    show "- 1022 \<le> (3::int)" by simp
    show "real_of_int 4538647623875280 - 1 / 2 < sqrt 65 / 2 powr real_of_int (3 - 52)"
      using lo by (simp add: powr_minus inverse_eq_divide field_simps)
    show "sqrt 65 / 2 powr real_of_int (3 - 52) < real_of_int 4538647623875280 + 1 / 2"
      using hi by (simp add: powr_minus inverse_eq_divide field_simps)
  qed
  then show ?thesis
    unfolding math_hypot_def h by (simp add: powr_minus inverse_eq_divide)
qed

lemma capped_x:
  "binary64 (binary64 (4 / (4538647623875280 / 2 ^ 49)) * 2) = 8937644551631322 / 2 ^ 53"
proof -
  have "binary64 (4 / (4538647623875280 / 2 ^ 49)) =
        of_int 8937644551631322 * 2 powr (of_int (- 2 - 52))"
    by (rule binary64_eq) (simp_all add: powr_minus inverse_eq_divide)
  then have q: "binary64 (4 / (4538647623875280 / 2 ^ 49)) * 2 = 8937644551631322 / 2 ^ 53"
    by (simp add: powr_minus inverse_eq_divide)
  have "binary64 (8937644551631322 / 2 ^ 53) =
        of_int 8937644551631322 * 2 powr (of_int (- 1 - 52))"
    by (rule binary64_eq) (simp_all add: powr_minus inverse_eq_divide)
  then show ?thesis
    unfolding q by (simp add: powr_minus inverse_eq_divide)
qed

lemma capped_y:
  "binary64 (binary64 (7 / (4538647623875280 / 2 ^ 49)) * 2) = 7820438982677407 / 2 ^ 52"
proof -
  have "binary64 (7 / (4538647623875280 / 2 ^ 49)) =
        of_int 7820438982677407 * 2 powr (of_int (- 1 - 52))"
    by (rule binary64_eq) (simp_all add: powr_minus inverse_eq_divide)
  then have q: "binary64 (7 / (4538647623875280 / 2 ^ 49)) * 2 = 7820438982677407 / 2 ^ 52"
    by (simp add: powr_minus inverse_eq_divide)
  have "binary64 (7820438982677407 / 2 ^ 52) =
        of_int 7820438982677407 * 2 powr (of_int (0 - 52))"
    by (rule binary64_eq) (simp_all add: powr_minus inverse_eq_divide)
  then show ?thesis
    unfolding q by (simp add: powr_minus inverse_eq_divide)
qed

lemma cap_speed_4_7:
  assumes "velocity s = (4, 7)"
  shows "velocity (cap_speed s) = (8937644551631322 / 2 ^ 53, 7820438982677407 / 2 ^ 52)"
proof -
  have gt: "MAX_SPEED < math_hypot 4 7"
    unfolding sqrt_65_rounded by (simp add: MAX_SPEED_def)
  have "cap_speed s =
      s\<lparr>velocity := (binary64 (binary64 (4 / math_hypot 4 7) * MAX_SPEED),
                      binary64 (binary64 (7 / math_hypot 4 7) * MAX_SPEED))\<rparr>"
    unfolding cap_speed_def Let_def assms fst_conv snd_conv using gt by (simp only: if_True)
  also have "\<dots> = s\<lparr>velocity := (8937644551631322 / 2 ^ 53, 7820438982677407 / 2 ^ 52)\<rparr>"
    unfolding sqrt_65_rounded MAX_SPEED_def capped_x capped_y ..
  finally show ?thesis by simp
qed

lemma capped_4_7_exceeds:
  "MAX_SPEED < hypot (8937644551631322 / 2 ^ 53) (7820438982677407 / 2 ^ 52)"
  by (simp add: less_hypot_iff MAX_SPEED_def)

lemma round_ties_even_error: "\<bar>of_int (round_ties_even q) - q\<bar> \<le> 1 / 2"
proof -
  have "of_int \<lfloor>q\<rfloor> \<le> q" "q < of_int \<lfloor>q\<rfloor> + 1" by linarith+
  then show ?thesis by (auto simp: round_ties_even_def Let_def)
qed

lemma binary64_error: "\<bar>binary64 x - x\<bar> \<le> \<bar>x\<bar> / 2 ^ 53 + 1 / 2 ^ 1075"
proof (cases "x = 0")
  case True
  then show ?thesis by (simp add: binary64_def)
next
  case False
  define L where "L = \<lfloor>log 2 \<bar>x\<bar>\<rfloor>"
  define e where "e = max L (- 1022) - 52"
  define u :: real where "u = 2 powr (of_int e)"
  have u: "0 < u" by (simp add: u_def)
  have b: "binary64 x = of_int (round_ties_even (x / u)) * u"
    using False by (simp add: binary64_def Let_def e_def u_def L_def)
  have "binary64 x - x = (of_int (round_ties_even (x / u)) - x / u) * u"
    using u unfolding b by (simp add: algebra_simps)
  then have "\<bar>binary64 x - x\<bar> = \<bar>of_int (round_ties_even (x / u)) - x / u\<bar> * u"
    using u by (simp add: abs_mult)
  also have "\<dots> \<le> 1 / 2 * u"
    using u round_ties_even_error [of "x / u"] by (intro mult_right_mono) simp_all
  finally have half: "\<bar>binary64 x - x\<bar> \<le> u / 2" by simp
  show ?thesis
  proof (cases "- 1022 \<le> L")
    case True
    then have e: "e = L - 52" by (simp add: e_def)
    have "of_int L \<le> log 2 \<bar>x\<bar>" unfolding L_def by simp
    then have "2 powr (of_int L) \<le> \<bar>x\<bar>"
      using False by (simp add: le_log_iff)
    moreover have "u = 2 powr (of_int L) / 2 ^ 52"
      unfolding u_def e by (simp add: powr_diff)
    ultimately have "u / 2 \<le> \<bar>x\<bar> / 2 ^ 53"
      by simp
    with half show ?thesis by simp
  next
    case False
    then have "e = - 1074" by (simp add: e_def)
    then have "u = 1 / 2 ^ 1074"
      by (simp add: u_def powr_minus inverse_eq_divide)
    then have "u / 2 = 1 / 2 ^ 1075" by simp
    with half have "\<bar>binary64 x - x\<bar> \<le> 1 / 2 ^ 1075" by simp
    moreover have "0 \<le> \<bar>x\<bar> / 2 ^ 53" by simp
    ultimately show ?thesis by linarith
  qed
qed

lemma hypot_abs: "hypot \<bar>x\<bar> \<bar>y\<bar> = hypot x y"
  by (simp add: hypot_def)

lemma hypot_mono:
  assumes "\<bar>a\<bar> \<le> c" and "\<bar>b\<bar> \<le> d"
  shows "hypot a b \<le> hypot c d"
proof -
  have "\<bar>a\<bar> \<le> \<bar>c\<bar>" "\<bar>b\<bar> \<le> \<bar>d\<bar>" using assms by linarith+
  then have "a\<^sup>2 \<le> c\<^sup>2" "b\<^sup>2 \<le> d\<^sup>2" by (simp_all only: abs_le_square_iff)
  then have "a * a + b * b \<le> c * c + d * d" by (simp add: power2_eq_square)
  then show ?thesis by (simp add: hypot_def)
qed

lemma hypot_triangle: "hypot (a + c) (b + d) \<le> hypot a b + hypot c d"
  using real_sqrt_sum_squares_triangle_ineq [of a c b d]
  by (simp add: hypot_def power2_eq_square)

lemma hypot_diag:
  assumes "0 \<le> B"
  shows "hypot B B \<le> 2 * B"
proof -
  have "B * B + B * B \<le> (2 * B)\<^sup>2"
    by (simp add: power2_eq_square)
  then show ?thesis
    unfolding hypot_def using assms by (intro real_le_lsqrt) simp_all
qed

lemma rescale_magnitude:
  assumes S: "2 < S" and N: "hypot vx vy * (1 - d) \<le> S + t"
    and gx: "\<bar>gx\<bar> \<le> A * (\<bar>vx\<bar> / S) + B" and gy: "\<bar>gy\<bar> \<le> A * (\<bar>vy\<bar> / S) + B"
    and A: "0 \<le> A" and B: "0 \<le> B" and t: "0 \<le> t" and d: "0 < d" "d < 1"
  shows "hypot gx gy \<le> A * ((1 + t / 2) / (1 - d)) + 2 * B"
proof -
  let ?N = "hypot vx vy"
  have "hypot gx gy \<le> hypot (A * (\<bar>vx\<bar> / S) + B) (A * (\<bar>vy\<bar> / S) + B)"
    using gx gy by (rule hypot_mono)
  also have "\<dots> \<le> hypot (A * (\<bar>vx\<bar> / S)) (A * (\<bar>vy\<bar> / S)) + hypot B B"
    by (rule hypot_triangle)
  also have "hypot (A * (\<bar>vx\<bar> / S)) (A * (\<bar>vy\<bar> / S)) = hypot (\<bar>vx\<bar> * (A / S)) (\<bar>vy\<bar> * (A / S))"
    by (simp add: mult.commute)
  also have "\<dots> = \<bar>A / S\<bar> * hypot \<bar>vx\<bar> \<bar>vy\<bar>"
    by (rule hypot_scale)
  also have "\<dots> = A * (?N / S)"
    using A S by (simp add: hypot_abs)
  finally have 1: "hypot gx gy \<le> A * (?N / S) + hypot B B" by simp
  have "?N \<le> (S + t) / (1 - d)"
    using N d by (simp add: pos_le_divide_eq)
  then have "?N / S \<le> (S + t) / (1 - d) / S"
    using S by (intro divide_right_mono) simp_all
  also have "\<dots> = (1 + t / S) / (1 - d)"
    using S by (simp add: field_simps)
  also have "\<dots> \<le> (1 + t / 2) / (1 - d)"
  proof -
    have "t / S \<le> t / 2" using S t by (intro divide_left_mono) simp_all
    then show ?thesis using d by (simp add: divide_right_mono)
  qed
  finally have "A * (?N / S) \<le> A * ((1 + t / 2) / (1 - d))"
    using A by (rule mult_left_mono)
  with 1 hypot_diag [OF B] show ?thesis by linarith
qed

lemma rounded_twice_general:
  fixes fl :: "real \<Rightarrow> real"
  assumes err: "\<And>x. \<bar>fl x - x\<bar> \<le> \<bar>x\<bar> * d + t" and d: "0 \<le> d" and t: "0 \<le> t"
  shows "\<bar>fl (fl q * 2)\<bar> \<le> 2 * (1 + d) * (1 + d) * \<bar>q\<bar> + (2 * (1 + d) + 1) * t"
proof -
  have f: "\<bar>fl q\<bar> \<le> (1 + d) * \<bar>q\<bar> + t"
  proof -
    have "\<bar>fl q\<bar> \<le> \<bar>q\<bar> + \<bar>fl q - q\<bar>" by linarith
    also have "\<dots> \<le> \<bar>q\<bar> + (\<bar>q\<bar> * d + t)" using err [of q] by linarith
    finally show ?thesis by (simp add: algebra_simps)
  qed
  have "\<bar>fl (fl q * 2)\<bar> \<le> \<bar>fl q * 2\<bar> + \<bar>fl (fl q * 2) - fl q * 2\<bar>" by linarith
  also have "\<dots> \<le> \<bar>fl q * 2\<bar> + (\<bar>fl q * 2\<bar> * d + t)"
    using err [of "fl q * 2"] by linarith
  also have "\<dots> = 2 * (1 + d) * \<bar>fl q\<bar> + t"
    by (simp add: abs_mult algebra_simps)
  also have "\<dots> \<le> 2 * (1 + d) * ((1 + d) * \<bar>q\<bar> + t) + t"
    using f d by (simp add: mult_left_mono)
  also have "\<dots> = 2 * (1 + d) * (1 + d) * \<bar>q\<bar> + (2 * (1 + d) + 1) * t"
    by (simp add: algebra_simps)
  finally show ?thesis .
qed

lemma binary64_error_coarse: "\<bar>binary64 x - x\<bar> \<le> \<bar>x\<bar> * (1 / 2 ^ 53) + 1 / 2 ^ 110"
proof -
  have "(2 :: real) ^ 110 \<le> 2 ^ 1075" by (rule power_increasing) simp_all
  then have "(1 :: real) / 2 ^ 1075 \<le> 1 / 2 ^ 110"
    by (intro divide_left_mono) simp_all
  moreover have "\<bar>binary64 x - x\<bar> \<le> \<bar>x\<bar> / 2 ^ 53 + 1 / 2 ^ 1075"
    by (rule binary64_error)
  ultimately have "\<bar>binary64 x - x\<bar> \<le> \<bar>x\<bar> / 2 ^ 53 + 1 / 2 ^ 110" by linarith
  then show ?thesis by (simp only: times_divide_eq_right mult_1_right)
qed

lemma cap_numeric:
  "(2 + 1 / 2 ^ 110) / (1 - 1 / 2 ^ 53) \<le> (2 * (1 + 1 / 2 ^ 50) :: real)"
  "2 * (1 + 1 / 2 ^ 53) * (1 + 1 / 2 ^ 53) * ((1 + 1 / 2 ^ 110 / 2) / (1 - 1 / 2 ^ 53)) +
     2 * ((2 * (1 + 1 / 2 ^ 53) + 1) * (1 / 2 ^ 110)) \<le> (2 * (1 + 1 / 2 ^ 50) :: real)"
  by simp_all

lemma cap_speed_velocity:
  "velocity (cap_speed s) =
     (let vx = fst (velocity s); vy = snd (velocity s); speed = math_hypot vx vy
      in if speed > MAX_SPEED
         then (binary64 (binary64 (vx / speed) * MAX_SPEED),
               binary64 (binary64 (vy / speed) * MAX_SPEED))
         else (vx, vy))"
  by (simp add: cap_speed_def Let_def)

lemma cap_speed_magnitude:
  "hypot (fst (velocity (cap_speed s))) (snd (velocity (cap_speed s)))
     \<le> MAX_SPEED * (1 + 1 / 2 ^ 50)"
proof -
  define d :: real where "d = 1 / 2 ^ 53"
  define t :: real where "t = 1 / 2 ^ 110"
  define vx where "vx = fst (velocity s)"
  define vy where "vy = snd (velocity s)"
  define S where "S = math_hypot vx vy"
  have dt: "0 < d" "d < 1" "0 \<le> t" "0 \<le> d" by (simp_all add: d_def t_def)
  have err: "\<And>x. \<bar>binary64 x - x\<bar> \<le> \<bar>x\<bar> * d + t"
    unfolding d_def t_def by (rule binary64_error_coarse)
  have "\<bar>S - hypot vx vy\<bar> \<le> \<bar>hypot vx vy\<bar> * d + t"
    unfolding S_def math_hypot_def by (rule err)
  then have N: "hypot vx vy * (1 - d) \<le> S + t"
    using hypot_nonneg [of vx vy] by (simp add: algebra_simps)
  show ?thesis
  proof (cases "MAX_SPEED < S")
    case True
    then have S: "2 < S" by (simp add: MAX_SPEED_def)
    define A where "A = 2 * (1 + d) * (1 + d)"
    define B where "B = (2 * (1 + d) + 1) * t"
    have AB: "0 \<le> A" "0 \<le> B" using dt by (simp_all add: A_def B_def)
    have v: "velocity (cap_speed s) =
        (binary64 (binary64 (vx / S) * 2), binary64 (binary64 (vy / S) * 2))"
      using True unfolding cap_speed_velocity Let_def vx_def vy_def S_def
      by (simp add: MAX_SPEED_def)
    have gx: "\<bar>binary64 (binary64 (vx / S) * 2)\<bar> \<le> A * (\<bar>vx\<bar> / S) + B"
      using rounded_twice_general [of binary64 d t "vx / S", OF err dt(4) dt(3)] S
      by (simp add: A_def B_def)
    have gy: "\<bar>binary64 (binary64 (vy / S) * 2)\<bar> \<le> A * (\<bar>vy\<bar> / S) + B"
      using rounded_twice_general [of binary64 d t "vy / S", OF err dt(4) dt(3)] S
      by (simp add: A_def B_def)
    have "hypot (binary64 (binary64 (vx / S) * 2)) (binary64 (binary64 (vy / S) * 2))
          \<le> A * ((1 + t / 2) / (1 - d)) + 2 * B"
      using S N gx gy AB dt(3) dt(1) dt(2) by (rule rescale_magnitude)
    also have "\<dots> \<le> 2 * (1 + 1 / 2 ^ 50)"
      unfolding A_def B_def d_def t_def by (rule cap_numeric(2))
    finally show ?thesis unfolding v by (simp add: MAX_SPEED_def)
  next
    case False
    then have S: "S \<le> 2" by (simp add: MAX_SPEED_def)
    have v: "velocity (cap_speed s) = (vx, vy)"
      using False unfolding cap_speed_velocity Let_def vx_def vy_def S_def by simp
    have "hypot vx vy \<le> (S + t) / (1 - d)"
      using N dt by (simp add: pos_le_divide_eq)
    also have "\<dots> \<le> (2 + t) / (1 - d)"
      using S dt by (intro divide_right_mono) simp_all
    also have "\<dots> \<le> 2 * (1 + 1 / 2 ^ 50)"
      unfolding d_def t_def by (rule cap_numeric(1))
    finally show ?thesis unfolding v by (simp add: MAX_SPEED_def)
  qed
qed

lemma before_cap_cap_store: "before_cap cap_store [] 0 [0] 6 0 0 = Inr (cap_store, [])"
proof -
  let ?s = "cap_store 0"
  have s: "?s = (Boid 0 0 0 False 1 False 0 0)\<lparr>velocity := (4, 7)\<rparr>"
    by (simp add: cap_store_def)
  have st: "state ?s = ''PATROL''"
    by (simp add: s Boid_def)
  have t: "decrement_timers ?s = ?s"
    by (simp add: s Boid_def decrement_timers_def)
  have steer: "patrol_steer cap_store 0 6 = Inr cap_store"
  proof -
    have "?s\<lparr>leader_ref := None\<rparr> = ?s" by (simp add: s Boid_def)
    then have "cap_store(0 := ?s\<lparr>leader_ref := None\<rparr>) = cap_store"
      by (simp only: fun_upd_triv)
    moreover have "\<not> is_leader ?s" "leader_ref ?s = None" by (simp_all add: s Boid_def)
    ultimately show ?thesis by (simp add: patrol_steer_def Let_def)
  qed
  have acq: "acquire_target cap_store 0 [0] = cap_store"
    by (simp add: acquire_target_def)
  have p: "handle_patrol cap_store 0 [0] 6 = Inr cap_store"
    by (simp add: handle_patrol_def steer acq)
  have f: "flocking cap_store 0 [0] = cap_store"
    by (simp add: flocking_def neighbors_def)
  show ?thesis
    unfolding before_cap_def Let_def by (simp add: t st p f)
qed

lemma Boid_update_velocity:
  assumes "0 < health (h self)"
    and "Boid_update h ps self all_boids sq r1 r2 = Inr (h', ps')"
  shows "\<exists>h3. before_cap h ps self all_boids sq r1 r2 = Inr (h3, ps') \<and>
           velocity (h' self) =
             (let vx = fst (velocity (h3 self)); vy = snd (velocity (h3 self));
                  speed = math_hypot vx vy
              in if speed > MAX_SPEED
                 then (binary64 (binary64 (vx / speed) * MAX_SPEED),
                       binary64 (binary64 (vy / speed) * MAX_SPEED))
                 else (vx, vy)) \<and>
           hypot (fst (velocity (h' self))) (snd (velocity (h' self)))
             \<le> MAX_SPEED * (1 + 1 / 2 ^ 50)"
proof -
  obtain h3 where b: "before_cap h ps self all_boids sq r1 r2 = Inr (h3, ps')"
    and h': "h' = heal_ally (h3(self := move_and_wrap (cap_speed (h3 self)))) self all_boids"
    using Boid_update_before_cap [OF assms] by blast
  let ?h5 = "h3(self := move_and_wrap (cap_speed (h3 self)))"
  have "h' self = ?h5 self"
    unfolding h'
    using heal_ally_frame [where h = ?h5 and self = self and all_boids = all_boids and b = self]
    by simp
  then have v: "velocity (h' self) = velocity (cap_speed (h3 self))"
    by (simp add: move_and_wrap_def Let_def)
  show ?thesis
    using b cap_speed_magnitude [of "h3 self"] unfolding v cap_speed_velocity by blast
qed

lemma cap_store_update:
  "\<exists>h' ps'. Boid_update cap_store [] 0 [0] 6 0 0 = Inr (h', ps')"
  by (rule Boid_update_follower) (simp add: cap_store_def Boid_def)

section \<open>Formation offsets\<close>

text \<open>
  C1, as stated: in mode V with squad size 6 the offsets of the follower indices 0, 1
  and 2 are (-30, 30), (30, 30) and (-60, 60). The code gives other offsets at
  the indices 0 and 2, so the three equations do not hold together.
\<close>

theorem formation_offsets_not_as_stated:
  "\<not> (get_formation_offset 0 ''V'' 6 = Inr (- 30, 30) \<and>
      get_formation_offset 1 ''V'' 6 = Inr (30, 30) \<and>
      get_formation_offset 2 ''V'' 6 = Inr (- 60, 60))"
  by (simp add: get_formation_offset_def)

text \<open>
  C1, amended: in mode V the function returns, for every index and squad size, the
  offset (side * 30 * layer, 30 * layer), where layer is the ceiling of index / 2
  (the floor of (index + 1) / 2) and side is -1 at an even and +1 at an odd index;
  for the squad size 6 the indices 0, 1 and 2 give (0, 0), (30, 30) and (-30, 30).
\<close>

theorem formation_offset_V:
  "get_formation_offset i ''V'' n =
     Inr (real_of_int ((if even i then - 1 else 1) * 30 * \<lceil>real_of_int i / 2\<rceil>),
          real_of_int (30 * \<lceil>real_of_int i / 2\<rceil>)) \<and>
   \<lceil>real_of_int i / 2\<rceil> = \<lfloor>(real_of_int i + 1) / 2\<rfloor> \<and>
   get_formation_offset 0 ''V'' 6 = Inr (0, 0) \<and>
   get_formation_offset 1 ''V'' 6 = Inr (30, 30) \<and>
   get_formation_offset 2 ''V'' 6 = Inr (- 30, 30)"
proof -
  have c: "\<lceil>real_of_int i / 2\<rceil> = (i + 1) div 2"
  proof (rule ceiling_unique)
    show "real_of_int ((i + 1) div 2) - 1 < real_of_int i / 2"
      by (cases "even i") (auto elim!: evenE oddE)
    show "real_of_int i / 2 \<le> real_of_int ((i + 1) div 2)"
      by (cases "even i") (auto elim!: evenE oddE)
  qed
  have f: "\<lfloor>(real_of_int i + 1) / 2\<rfloor> = (i + 1) div 2"
    using floor_divide_of_int_eq [of "i + 1" 2, where ?'a = real] by simp
  have e: "even i \<longleftrightarrow> i mod 2 = 0"
    by presburger
  show ?thesis
    unfolding c f by (simp add: get_formation_offset_def e Let_def)
qed

section \<open>Shield activation\<close>

text \<open>
  C5: apply_shield called on a non-enemy leader whose shield_timer is at most 0 sets
  shielded to true and shield_timer to 180 on every non-leader non-enemy agent of the
  roster that shares its squad_id, and sets the leader's own shield_timer to 600,
  whether or not there is such a follower; called with a positive shield_timer, or on
  a non-leader or an enemy, it leaves the whole store as it was.
\<close>

theorem apply_shield_effect:
  "(is_leader (h self) \<and> \<not> is_enemy (h self) \<and> shield_timer (h self) \<le> 0 \<longrightarrow>
      (\<forall>b \<in> set all_boids.
          squad_id (h b) = squad_id (h self) \<and> \<not> is_leader (h b) \<and> \<not> is_enemy (h b) \<longrightarrow>
          shielded (apply_shield h self all_boids b) \<and>
          shield_timer (apply_shield h self all_boids b) = 180) \<and>
      shield_timer (apply_shield h self all_boids self) = 600) \<and>
   (\<not> (is_leader (h self) \<and> \<not> is_enemy (h self) \<and> shield_timer (h self) \<le> 0) \<longrightarrow>
      apply_shield h self all_boids = h)"
  by (auto simp: apply_shield_def shield_loop_eq Let_def)

theorem apply_shield_effect_witness:
  "shielded (apply_shield squad_store 0 [0, 1, 2, 3] 1) \<and>
   shield_timer (apply_shield squad_store 0 [0, 1, 2, 3] 2) = 180 \<and>
   shield_timer (apply_shield squad_store 0 [0, 1, 2, 3] 0) = 600 \<and>
   apply_shield squad_store 1 [0, 1, 2, 3] = squad_store"
  using apply_shield_effect [of squad_store 0 "[0, 1, 2, 3]"]
    apply_shield_effect [of squad_store 1 "[0, 1, 2, 3]"]
  by (simp add: squad_store_def Boid_def)

text \<open>
  C10: apply_shield leaves the shielded flag of the agent it is called on as it was;
  of that agent it changes at most shield_timer, of any agent at most shielded and
  shield_timer, and it changes nothing of an agent that is neither the caller nor a
  non-leader non-enemy agent of the roster in the caller's squad.
\<close>

theorem apply_shield_frame:
  "shielded (apply_shield h self all_boids self) = shielded (h self) \<and>
   (apply_shield h self all_boids self)\<lparr>shield_timer := shield_timer (h self)\<rparr> = h self \<and>
   (\<forall>b. (apply_shield h self all_boids b)
          \<lparr>shielded := shielded (h b), shield_timer := shield_timer (h b)\<rparr> = h b) \<and>
   (\<forall>b. b \<noteq> self \<and>
        \<not> (b \<in> set all_boids \<and> squad_id (h b) = squad_id (h self) \<and> \<not> is_leader (h b) \<and>
           \<not> is_enemy (h b)) \<longrightarrow>
        apply_shield h self all_boids b = h b)"
  by (auto simp: apply_shield_def shield_loop_eq Let_def)

theorem apply_shield_frame_witness:
  "apply_shield squad_store 0 [0, 1, 2, 3] 3 = squad_store 3 \<and>
   shielded (apply_shield squad_store 0 [0, 1, 2, 3] 0) = False"
  using apply_shield_frame [of squad_store 0 "[0, 1, 2, 3]"]
  by (simp add: squad_store_def Boid_def)

section \<open>Projectile hits\<close>

text \<open>
  C4: when Projectile.update runs on an active projectile whose target is alive and
  leaves it strictly within BOID_RADIUS of the target, the target's health has gone
  down by exactly 5 if the target is not shielded and is unchanged if it is
  shielded, and the projectile is inactive in both cases.
\<close>

theorem projectile_hit:
  assumes "active p" and "health (h (target_boid p)) > 0"
    and "Projectile_update h p = (h', p')"
    and "distance (pos p') (position (h (target_boid p))) < BOID_RADIUS"
  shows "health (h' (target_boid p)) =
           (if shielded (h (target_boid p)) then health (h (target_boid p))
            else health (h (target_boid p)) - 5) \<and>
         \<not> active p'"
  using assms by (auto simp: Projectile_update_def Let_def split: if_splits)

theorem projectile_hit_witness:
  "health (fst (Projectile_update squad_store (Projectile (408, 350) 3)) 3) = 95 \<and>
   \<not> active (snd (Projectile_update squad_store (Projectile (408, 350) 3)))"
proof -
  let ?p = "Projectile (408, 350) 3"
  let ?r = "Projectile_update squad_store ?p"
  have a: "active ?p" by (simp add: Projectile_def)
  have l: "health (squad_store (target_boid ?p)) > 0"
    by (simp add: Projectile_def squad_store_def Boid_def)
  have d: "distance (pos (snd ?r)) (position (squad_store (target_boid ?p))) < BOID_RADIUS"
    by (simp add: Projectile_update_def Projectile_def squad_store_def Boid_def Let_def
        distance_def hypot_zero_right BOID_RADIUS_def)
  have e: "?r = (fst ?r, snd ?r)" by simp
  show ?thesis
    using projectile_hit [OF a l e d]
    by (simp add: Projectile_def squad_store_def Boid_def)
qed


section \<open>Healing\<close>

text \<open>
  C9: on a roster without repetitions, heal_ally run on a medic raises by exactly 0.2,
  capped at 100, the health of every non-enemy agent of the roster with the medic's
  squad_id, other than the medic, that is at a distance below 60 and has health below
  100, and changes nothing else in the store; run on a non-medic it changes nothing.
  The update of a live agent ends with this step whatever the agent's state is: when
  update returns, the healths are those that heal_ally leaves, with the distances
  taken from the position the agent has after its move.
\<close>

theorem heal_ally_effect:
  assumes "distinct all_boids"
  shows "heal_ally h self all_boids b =
     (if is_medic (h self) \<and> b \<in> set all_boids \<and> b \<noteq> self \<and>
         squad_id (h b) = squad_id (h self) \<and> \<not> is_enemy (h b) \<and>
         distance (position (h self)) (position (h b)) < 60 \<and> health (h b) < 100
      then (h b)\<lparr>health := min (health (h b) + 0.2) 100\<rparr> else h b) \<and>
     (0 < health (h self) \<and> Boid_update h ps self all_boids sq r1 r2 = Inr (h', ps') \<longrightarrow>
      health (h' b) =
        (if is_medic (h self) \<and> b \<in> set all_boids \<and> b \<noteq> self \<and>
            squad_id (h b) = squad_id (h self) \<and> \<not> is_enemy (h b) \<and>
            distance (position (h' self)) (position (h b)) < 60 \<and> health (h b) < 100
         then min (health (h b) + 0.2) 100 else health (h b)))"
  using heal_ally_eq [OF assms] Boid_update_health [OF assms] by blast

theorem heal_ally_effect_witness:
  "heal_ally wounded_store 1 [0, 1, 2, 3] 2 = (wounded_store 2)\<lparr>health := 50.2\<rparr> \<and>
   health (heal_ally wounded_store 1 [0, 1, 2, 3] 0) = 100 \<and>
   heal_ally wounded_store 0 [0, 1, 2, 3] 2 = wounded_store 2 \<and>
   (\<exists>h' ps'. Boid_update wounded_store [] 1 [0, 1, 2, 3] 6 0 0 = Inr (h', ps') \<and>
      health (h' 3) = 100)"
proof -
  have d: "distinct [0, 1, 2, 3 :: nat]" by simp
  obtain h' ps' where u: "Boid_update wounded_store [] 1 [0, 1, 2, 3] 6 0 0 = Inr (h', ps')"
    using Boid_update_follower [of wounded_store 1 "[]" "[0, 1, 2, 3]" 6 0 0]
    by (auto simp: wounded_store_def squad_store_def Boid_def)
  have "health (h' 3) = 100"
    using heal_ally_effect [OF d, of wounded_store 1 3 "[]" 6 0 0 h' ps'] u
    by (simp add: wounded_store_def squad_store_def Boid_def)
  moreover have "heal_ally wounded_store 1 [0, 1, 2, 3] 2 = (wounded_store 2)\<lparr>health := 50.2\<rparr>"
    using heal_ally_effect [OF d, of wounded_store 1 2]
    by (simp add: wounded_store_def squad_store_def Boid_def distance_def hypot_less_iff)
  moreover have "health (heal_ally wounded_store 1 [0, 1, 2, 3] 0) = 100"
    using heal_ally_effect [OF d, of wounded_store 1 0]
    by (simp add: wounded_store_def squad_store_def Boid_def distance_def hypot_less_iff)
  moreover have "heal_ally wounded_store 0 [0, 1, 2, 3] 2 = wounded_store 2"
    using heal_ally_effect [OF d, of wounded_store 0 2]
    by (simp add: wounded_store_def squad_store_def Boid_def)
  ultimately show ?thesis using u by blast
qed

section \<open>Dead agents in the roster\<close>

text \<open>
  C3, as stated: an agent whose health is at most 0 is never among the flocking
  neighbours of another agent, never has its health raised by heal_ally and never has
  shielded and shield_timer set by apply_shield. In the store \<open>dead_store\<close> the dead
  follower 2 is a neighbour of the medic 1, is healed by it, and is shielded by the
  leader 0.
\<close>

theorem dead_agents_not_excluded:
  "health (dead_store 2) \<le> 0 \<and>
   2 \<in> set (neighbors dead_store 1 [0, 1, 2, 3]) \<and>
   health (dead_store 2) < health (heal_ally dead_store 1 [0, 1, 2, 3] 2) \<and>
   \<not> shielded (dead_store 2) \<and>
   shielded (apply_shield dead_store 0 [0, 1, 2, 3] 2) \<and>
   shield_timer (apply_shield dead_store 0 [0, 1, 2, 3] 2) = 180"
  by (simp add: dead_store_def squad_store_def Boid_def neighbors_def heal_ally_def
      apply_shield_def distance_def hypot_less_iff NEIGHBOR_RADIUS_def Let_def)

text \<open>
  C3, amended: update, heal_ally and apply_shield do not test the health of the other
  agents; they act on agents of the roster only. So when every agent of the roster is
  alive (the main loop filters the roster before each round of updates), every
  flocking neighbour is alive, every agent whose health heal_ally or update changes is
  alive, and every agent other than the caller whose shielded or shield_timer
  apply_shield changes is alive.
\<close>

theorem live_roster_only_live_agents:
  assumes "\<forall>b \<in> set all_boids. 0 < health (h b)"
  shows "(\<forall>h2. \<forall>b \<in> set (neighbors h2 self all_boids). 0 < health (h b)) \<and>
     (\<forall>b. health (heal_ally h self all_boids b) \<noteq> health (h b) \<longrightarrow> 0 < health (h b)) \<and>
     (\<forall>b. b \<noteq> self \<and> (shielded (apply_shield h self all_boids b) \<noteq> shielded (h b) \<or>
             shield_timer (apply_shield h self all_boids b) \<noteq> shield_timer (h b)) \<longrightarrow>
          0 < health (h b)) \<and>
     (0 < health (h self) \<and> Boid_update h ps self all_boids sq r1 r2 = Inr (h', ps') \<longrightarrow>
        (\<forall>b. health (h' b) \<noteq> health (h b) \<longrightarrow> 0 < health (h b)))"
proof (intro conjI allI impI ballI)
  fix h2 b assume "b \<in> set (neighbors h2 self all_boids)"
  then have "b \<in> set all_boids" by (simp add: neighbors_def)
  with assms show "0 < health (h b)" by blast
next
  fix b assume "health (heal_ally h self all_boids b) \<noteq> health (h b)"
  then have "b \<in> set all_boids"
    using heal_ally_frame [where h = h and self = self and all_boids = all_boids and b = b] by auto
  with assms show "0 < health (h b)" by blast
next
  fix b
  assume a: "b \<noteq> self \<and> (shielded (apply_shield h self all_boids b) \<noteq> shielded (h b) \<or>
             shield_timer (apply_shield h self all_boids b) \<noteq> shield_timer (h b))"
  then have "b \<in> set all_boids"
    by (auto simp: apply_shield_def shield_loop_eq Let_def split: if_splits)
  with assms show "0 < health (h b)" by blast
next
  fix b
  assume u: "0 < health (h self) \<and> Boid_update h ps self all_boids sq r1 r2 = Inr (h', ps')"
    and c: "health (h' b) \<noteq> health (h b)"
  obtain h3 where k3: "keeps h self h3"
    and h': "h' = heal_ally (h3(self := move_and_wrap (cap_speed (h3 self)))) self all_boids"
    using Boid_update_stages [of h self ps all_boids sq r1 r2 h' ps'] u by blast
  let ?h5 = "h3(self := move_and_wrap (cap_speed (h3 self)))"
  have k5: "keeps h self ?h5"
    using k3 keeps_cap_move [of h3 self] keeps_trans by blast
  then have "health (?h5 b) = health (h b)"
    by (cases "b = self") (auto simp: keeps_def)
  with c have "h' b \<noteq> ?h5 b" by auto
  then have "b \<in> set all_boids"
    unfolding h' using heal_ally_frame [where h = ?h5 and self = self and all_boids = all_boids and b = b] by auto
  with assms show "0 < health (h b)" by blast
qed

theorem live_roster_only_live_agents_witness:
  "2 \<in> set (neighbors wounded_store 1 [0, 1, 2, 3]) \<and>
   health (heal_ally wounded_store 1 [0, 1, 2, 3] 2) \<noteq> health (wounded_store 2) \<and>
   0 < health (wounded_store 2)"
proof -
  have l: "\<forall>b \<in> set [0, 1, 2, 3 :: nat]. 0 < health (wounded_store b)"
    by (simp add: wounded_store_def squad_store_def Boid_def)
  have n: "2 \<in> set (neighbors wounded_store 1 [0, 1, 2, 3])"
    by (simp add: wounded_store_def squad_store_def Boid_def neighbors_def distance_def
      hypot_less_iff NEIGHBOR_RADIUS_def)
  have c: "health (heal_ally wounded_store 1 [0, 1, 2, 3] 2) \<noteq> health (wounded_store 2)"
    by (simp add: wounded_store_def squad_store_def Boid_def heal_ally_def distance_def
      hypot_less_iff Let_def)
  from n c show ?thesis
    using live_roster_only_live_agents [OF l, of 1] by blast
qed

section \<open>Target acquisition\<close>

text \<open>
  C6: whenever handle_patrol runs to its end on an agent and at least one live agent
  of the other faction in the roster lies strictly within detection_range,
  target_enemy is set to such an agent at minimum distance and the state becomes
  ENGAGE. Among equidistant candidates the one that comes first in the roster is
  taken: every candidate before the target in the roster is strictly farther, every
  candidate after it is at least as far.
\<close>

theorem handle_patrol_target:
  assumes "handle_patrol h self all_boids sq = Inr h'"
    and "\<exists>b \<in> set all_boids. detectable h self b"
  shows "\<exists>t pre post.
           target_enemy (h' self) = Some t \<and> state (h' self) = ''ENGAGE'' \<and>
           all_boids = pre @ t # post \<and> detectable h self t \<and>
           (\<forall>c \<in> set pre. detectable h self c \<longrightarrow>
              distance (position (h self)) (position (h t)) <
              distance (position (h self)) (position (h c))) \<and>
           (\<forall>c \<in> set post. detectable h self c \<longrightarrow>
              distance (position (h self)) (position (h t)) \<le>
              distance (position (h self)) (position (h c))) \<and>
           (\<forall>c \<in> set all_boids. detectable h self c \<longrightarrow>
              distance (position (h self)) (position (h t)) \<le>
              distance (position (h self)) (position (h c)))"
proof -
  let ?d = "\<lambda>b. distance (position (h self)) (position (h b))"
  from assms(1) obtain h1 where st: "patrol_steer h self sq = Inr h1"
    and h': "h' = acquire_target h1 self all_boids"
    by (auto simp: handle_patrol_def split: sum.splits)
  note v = patrol_steer_view [OF st]
  let ?cands = "filter (detectable h self) all_boids"
  have cands: "filter (\<lambda>b. distance (position (h1 self)) (position (h1 b)) < detection_range (h1 self))
          (filter (\<lambda>b. is_enemy (h1 b) \<noteq> is_enemy (h1 self) \<and> health (h1 b) > 0) all_boids)
        = ?cands"
    by (auto simp: v detectable_def intro: filter_cong)
  have key: "(\<lambda>e. distance (position (h1 self)) (position (h1 e))) = ?d"
    by (simp add: v)
  from assms(2) have "?cands \<noteq> []"
    by (simp add: filter_empty_conv)
  then obtain e es where ce: "?cands = e # es"
    by (cases ?cands) auto
  let ?t = "min_key_from ?d e es"
  have res: "target_enemy (h' self) = Some ?t \<and> state (h' self) = ''ENGAGE''"
    unfolding h' acquire_target_def Let_def unfolding cands key ce by simp
  obtain pre' post' where sp: "?cands = pre' @ ?t # post'"
    and before: "\<forall>c \<in> set pre'. ?d ?t < ?d c"
    and after: "\<forall>c \<in> set post'. ?d ?t \<le> ?d c"
    using min_key_from_first [of e es ?d] unfolding ce by blast
  obtain pre post where r: "all_boids = pre @ ?t # post" and t: "detectable h self ?t"
    and fpre: "filter (detectable h self) pre = pre'"
    and fpost: "filter (detectable h self) post = post'"
    using filter_split_at [OF sp] by blast
  have b: "\<forall>c \<in> set pre. detectable h self c \<longrightarrow> ?d ?t < ?d c"
    using before fpre by auto
  have a: "\<forall>c \<in> set post. detectable h self c \<longrightarrow> ?d ?t \<le> ?d c"
    using after fpost by auto
  have "\<forall>c \<in> set (pre @ ?t # post). detectable h self c \<longrightarrow> ?d ?t \<le> ?d c"
    using a b by fastforce
  then have "\<forall>c \<in> set all_boids. detectable h self c \<longrightarrow> ?d ?t \<le> ?d c"
    using r by simp
  with a b show ?thesis using res r t by blast
qed

theorem handle_patrol_target_witness:
  "\<exists>h'. handle_patrol squad_store 0 [0, 1, 2, 3] 6 = Inr h' \<and>
      target_enemy (h' 0) = Some 3 \<and> state (h' 0) = ''ENGAGE''"
proof -
  obtain h' where p: "handle_patrol squad_store 0 [0, 1, 2, 3] 6 = Inr h'"
    by (simp add: handle_patrol_def patrol_steer_def squad_store_def Boid_def)
  have d: "\<exists>b \<in> set [0, 1, 2, 3]. detectable squad_store 0 b"
    by (simp add: detectable_def squad_store_def Boid_def distance_def hypot_zero_right)
  have only: "\<And>b. b \<in> set [0, 1, 2, 3 :: nat] \<Longrightarrow> detectable squad_store 0 b \<Longrightarrow> b = 3"
    by (auto simp: detectable_def squad_store_def Boid_def)
  obtain t pre post where "target_enemy (h' 0) = Some t" "state (h' 0) = ''ENGAGE''"
    "[0, 1, 2, 3] = pre @ t # post" "detectable squad_store 0 t"
    using handle_patrol_target [OF p d] by blast
  moreover from this have "t \<in> set [0, 1, 2, 3]"
    by (metis in_set_conv_decomp)
  ultimately have "target_enemy (h' 0) = Some 3" "state (h' 0) = ''ENGAGE''"
    using only by blast+
  with p show ?thesis by blast
qed


section \<open>Evasion\<close>

text \<open>
  C2, at an input where the code departs from it: the medic of \<open>evade_store\<close> is in
  range of one threat, and the flee boost cancels its velocity exactly. With both
  random draws equal to 1/2 the new velocity is (1/2, 1/2), whose magnitude is below
  MAX_SPEED / 2: each component is drawn on its own, so the vector is not one of
  magnitude MAX_SPEED / 2.
\<close>

theorem handle_evade_zero_velocity:
  "velocity (handle_evade evade_store 1 [0, 1, 2, 3] (1 / 2) (1 / 2) 1) = (1 / 2, 1 / 2) \<and>
   hypot (fst (velocity (handle_evade evade_store 1 [0, 1, 2, 3] (1 / 2) (1 / 2) 1)))
         (snd (velocity (handle_evade evade_store 1 [0, 1, 2, 3] (1 / 2) (1 / 2) 1)))
     < MAX_SPEED / 2"
proof -
  have threats: "filter (\<lambda>b. is_enemy (evade_store b) \<noteq> is_enemy (evade_store 1) \<and>
        health (evade_store b) > 0 \<and>
        distance (position (evade_store 1)) (position (evade_store b))
          < detection_range (evade_store 1) * 1.5) [0, 1, 2, 3] = [3]"
    by (simp add: evade_store_def squad_store_def Boid_def distance_def hypot_zero_right)
  have "velocity (handle_evade evade_store 1 [0, 1, 2, 3] (1 / 2) (1 / 2) 1) = (1 / 2, 1 / 2)"
    unfolding handle_evade_def Let_def threats
    by (simp add: evade_store_def squad_store_def Boid_def hypot_zero_right MAX_SPEED_def)
  moreover have "hypot (1 / 2) (1 / 2) < MAX_SPEED / 2"
    by (simp add: hypot_less_iff MAX_SPEED_def)
  ultimately show ?thesis by (simp only: fst_conv snd_conv simp_thms)
qed

section \<open>The speed cap\<close>

text \<open>
  C7, as stated: for every live agent and every roster, after update the Euclidean
  magnitude of the agent's velocity is at most MAX_SPEED. For the live agent of
  \<open>cap_store\<close>, whose velocity (4, 7) reaches the cap unchanged, the rescaled velocity
  is (0.9922778767136677, 1.7364862842489186), and its magnitude is above MAX_SPEED.
\<close>

theorem speed_cap_exceeded:
  "0 < health (cap_store 0) \<and>
   MAX_SPEED <
     hypot (fst (velocity (fst (projr (Boid_update cap_store [] 0 [0] 6 0 0)) 0)))
           (snd (velocity (fst (projr (Boid_update cap_store [] 0 [0] 6 0 0)) 0)))"
proof -
  have alive: "0 < health (cap_store 0)" by (simp add: cap_store_def Boid_def)
  obtain h' ps' where u: "Boid_update cap_store [] 0 [0] 6 0 0 = Inr (h', ps')"
    using cap_store_update by blast
  obtain h3 where b: "before_cap cap_store [] 0 [0] 6 0 0 = Inr (h3, ps')"
    and h': "h' = heal_ally (h3(0 := move_and_wrap (cap_speed (h3 0)))) 0 [0]"
    using Boid_update_before_cap [OF alive u] by blast
  from b have h3: "h3 = cap_store" by (simp add: before_cap_cap_store)
  let ?h5 = "cap_store(0 := move_and_wrap (cap_speed (cap_store 0)))"
  have "h' 0 = ?h5 0"
    unfolding h' h3
    using heal_ally_frame [where h = ?h5 and self = 0 and all_boids = "[0]" and b = 0]
    by simp
  then have "velocity (h' 0) = velocity (cap_speed (cap_store 0))"
    by (simp add: move_and_wrap_def Let_def)
  also have "\<dots> = (8937644551631322 / 2 ^ 53, 7820438982677407 / 2 ^ 52)"
    by (rule cap_speed_4_7) (simp add: cap_store_def)
  finally have v: "velocity (fst (projr (Boid_update cap_store [] 0 [0] 6 0 0)) 0) =
      (8937644551631322 / 2 ^ 53, 7820438982677407 / 2 ^ 52)"
    unfolding u by simp
  show ?thesis
    unfolding v fst_conv snd_conv using alive capped_4_7_exceeds by blast
qed

text \<open>
  C7, amended: for every live agent and every roster, when update returns, the
  agent's velocity is the velocity it had when the cap was reached if the speed
  computed there is at most MAX_SPEED, and otherwise that velocity with both
  components divided by that same speed and multiplied by MAX_SPEED, each operation
  rounded; no later step of update changes it; and its Euclidean magnitude is at most
  MAX_SPEED times \<open>1 + 1 / 2 ^ 50\<close>, that is MAX_SPEED up to a rounding error.
\<close>

theorem speed_cap:
  assumes "0 < health (h self)"
    and "Boid_update h ps self all_boids sq r1 r2 = Inr (h', ps')"
  shows "\<exists>h3. before_cap h ps self all_boids sq r1 r2 = Inr (h3, ps') \<and>
           velocity (h' self) =
             (let vx = fst (velocity (h3 self)); vy = snd (velocity (h3 self));
                  speed = math_hypot vx vy
              in if speed > MAX_SPEED
                 then (binary64 (binary64 (vx / speed) * MAX_SPEED),
                       binary64 (binary64 (vy / speed) * MAX_SPEED))
                 else (vx, vy)) \<and>
           hypot (fst (velocity (h' self))) (snd (velocity (h' self)))
             \<le> MAX_SPEED * (1 + 1 / 2 ^ 50)"
  using assms by (rule Boid_update_velocity)

theorem speed_cap_witness:
  "\<exists>h' ps'. Boid_update cap_store [] 0 [0] 6 0 0 = Inr (h', ps') \<and>
     velocity (h' 0) = (8937644551631322 / 2 ^ 53, 7820438982677407 / 2 ^ 52) \<and>
     hypot (fst (velocity (h' 0))) (snd (velocity (h' 0))) \<le> MAX_SPEED * (1 + 1 / 2 ^ 50)"
proof -
  have alive: "0 < health (cap_store 0)" by (simp add: cap_store_def Boid_def)
  obtain h' ps' where u: "Boid_update cap_store [] 0 [0] 6 0 0 = Inr (h', ps')"
    using cap_store_update by blast
  obtain h3 where b: "before_cap cap_store [] 0 [0] 6 0 0 = Inr (h3, ps')"
    and v: "velocity (h' 0) =
             (let vx = fst (velocity (h3 0)); vy = snd (velocity (h3 0));
                  speed = math_hypot vx vy
              in if speed > MAX_SPEED
                 then (binary64 (binary64 (vx / speed) * MAX_SPEED),
                       binary64 (binary64 (vy / speed) * MAX_SPEED))
                 else (vx, vy))"
    and m: "hypot (fst (velocity (h' 0))) (snd (velocity (h' 0))) \<le> MAX_SPEED * (1 + 1 / 2 ^ 50)"
    using speed_cap [OF alive u] by blast
  from b have h3: "h3 = cap_store" by (simp add: before_cap_cap_store)
  have "velocity (h' 0) = velocity (cap_speed (cap_store 0))"
    unfolding v h3 cap_speed_velocity ..
  also have "\<dots> = (8937644551631322 / 2 ^ 53, 7820438982677407 / 2 ^ 52)"
    by (rule cap_speed_4_7) (simp add: cap_store_def)
  finally show ?thesis using u m by blast
qed

section \<open>The toroidal wrap\<close>

text \<open>
  C8, at an input where the code departs from it: a live agent alone in the roster, at
  the origin, with velocity \<open>(-2\<^sup>-\<^sup>7\<^sup>0, 0)\<close>. The move takes its x coordinate to
  \<open>-2\<^sup>-\<^sup>7\<^sup>0\<close>; the remainder adds WIDTH to it, and the sum rounds to WIDTH itself.
  After update the x coordinate is WIDTH, not below it.
\<close>

theorem wrap_reaches_WIDTH:
  "Boid_update wrap_store [] 0 [0] 6 0 0 =
     Inr (wrap_store(0 := (wrap_store 0)\<lparr>position := (WIDTH, 0)\<rparr>), [])"
proof -
  let ?s = "wrap_store 0"
  have s: "?s = Boid 0 0 0 False 1 False (- (1 / 2 ^ 70)) 0"
    by (simp add: wrap_store_def)
  have alive: "\<not> health ?s \<le> 0" and st: "state ?s = ''PATROL''"
    and nm: "\<not> is_medic ?s"
    by (simp_all add: s Boid_def)
  have t: "decrement_timers ?s = ?s"
    by (simp add: s Boid_def decrement_timers_def)
  have steer: "patrol_steer wrap_store 0 6 = Inr wrap_store"
  proof -
    have "?s\<lparr>leader_ref := None\<rparr> = ?s" by (simp add: s Boid_def)
    then have "wrap_store(0 := ?s\<lparr>leader_ref := None\<rparr>) = wrap_store"
      by (simp only: fun_upd_triv)
    moreover have "\<not> is_leader ?s" "leader_ref ?s = None" by (simp_all add: s Boid_def)
    ultimately show ?thesis by (simp add: patrol_steer_def Let_def)
  qed
  have acq: "acquire_target wrap_store 0 [0] = wrap_store"
    by (simp add: acquire_target_def)
  have p: "handle_patrol wrap_store 0 [0] 6 = Inr wrap_store"
    by (simp add: handle_patrol_def steer acq)
  have f: "flocking wrap_store 0 [0] = wrap_store"
    by (simp add: flocking_def neighbors_def)
  have pv: "position ?s = (0, 0)" "velocity ?s = (- (1 / 2 ^ 70), 0)"
    by (simp_all add: s Boid_def)
  have "0 \<le> binary64 (1 / 2 ^ 70) \<and> binary64 (1 / 2 ^ 70) \<le> of_int 2"
    by (rule binary64_bounds) simp_all
  then have "\<not> MAX_SPEED < math_hypot (- (1 / 2 ^ 70)) 0"
    by (simp add: math_hypot_def hypot_zero_right MAX_SPEED_def)
  then have c: "cap_speed ?s = ?s"
    unfolding cap_speed_def Let_def pv fst_conv snd_conv by (simp only: if_False)
  have m: "move_and_wrap ?s = ?s\<lparr>position := (WIDTH, 0)\<rparr>"
  proof -
    have z: "binary64 0 = 0" by (simp add: binary64_def)
    show ?thesis
      unfolding move_and_wrap_def Let_def pv
      by (simp only: fst_conv snd_conv add_0 add_0_right binary64_neg_tiny z
          float_rem_tiny_negative float_rem_zero)
  qed
  have h: "heal_ally (wrap_store(0 := ?s\<lparr>position := (WIDTH, 0)\<rparr>)) 0 [0] =
      wrap_store(0 := ?s\<lparr>position := (WIDTH, 0)\<rparr>)"
    using nm by (simp add: heal_ally_def)
  show ?thesis
    unfolding Boid_update_def Let_def
    by (simp add: alive t st p f c m h)
qed



end
